theory Spec2Isabelle
  imports Main "HOL-Library.Word"
begin

unbundle bit_operations_syntax

section \<open>Python values\<close>

text \<open>
  The module \<^verbatim>\<open>datatransformation.py\<close> is a Kinesis Firehose transformation Lambda.
  Its values are Python objects: \<^verbatim>\<open>bytes\<close> are lists of 8-bit words, \<^verbatim>\<open>str\<close> are
  lists of Unicode code points, a record of the event is a \<^verbatim>\<open>dict\<close> whose keys may be
  missing, and every \<^verbatim>\<open>raise\<close> is a value \<open>Inl e\<close> of the result type.
\<close>

type_synonym byte = "8 word"
type_synonym pybytes = "byte list"
type_synonym pystr = "nat list"

datatype pyval = PyStr pystr | PyBytes pybytes | PyNone | PyInt int

type_synonym pydict = "string \<rightharpoonup> pyval"

datatype error =
    ValueError string
  | KeyError string
  | TypeError
  | BinasciiError
  | UnicodeDecodeError
  | UnicodeEncodeError

datatype result = Ok | ProcessingFailed

record output_record =
  recordId :: pyval
  result :: result
  data :: pyval

record response =
  records :: "output_record list"

type_synonym event = "string \<rightharpoonup> pydict list"

definition CLICKSTREAM_LABELS :: "string list" where
  "CLICKSTREAM_LABELS = [''prev'', ''curr'', ''type'', ''n'']"

definition DELIMITER :: nat where
  "DELIMITER = 9"

definition NEWLINE :: nat where
  "NEWLINE = 10"

section \<open>The base64 codec\<close>

text \<open>
  Modelled from the spec: the transport-safe encoding of the payloads is base64, which the
  source takes from Python's standard library (\<^verbatim>\<open>base64.b64encode\<close>, \<^verbatim>\<open>base64.b64decode\<close>);
  the library is not part of the repository. The alphabet is the one of RFC 4648; the tables
  are written as the ranges of the alphabet.
\<close>

definition BASE64_PAD :: byte where
  "BASE64_PAD = 61"

definition table_b2a_base64 :: "byte \<Rightarrow> byte" where
  "table_b2a_base64 i =
     (if i < 26 then i + 65
      else if i < 52 then i + 71
      else if i < 62 then i - 4
      else if i = 62 then 43
      else 47)"

definition table_a2b_base64 :: "byte \<Rightarrow> byte option" where
  "table_a2b_base64 c =
     (if 65 \<le> c \<and> c \<le> 90 then Some (c - 65)
      else if 97 \<le> c \<and> c \<le> 122 then Some (c - 71)
      else if 48 \<le> c \<and> c \<le> 57 then Some (c + 4)
      else if c = 43 then Some 62
      else if c = 47 then Some 63
      else None)"

text \<open>
  Modelled from the spec: \<^verbatim>\<open>binascii.b2a_base64(s, newline=False)\<close>, the encoder behind
  \<^verbatim>\<open>base64.b64encode\<close>: three bytes give four characters, a rest of one or two bytes is
  padded with \<^verbatim>\<open>=\<close>.
\<close>

fun b2a_base64 :: "pybytes \<Rightarrow> pybytes" where
  "b2a_base64 (a # b # c # bin_data) =
     table_b2a_base64 (drop_bit 2 a)
     # table_b2a_base64 (push_bit 4 (a AND 3) OR drop_bit 4 b)
     # table_b2a_base64 (push_bit 2 (b AND 15) OR drop_bit 6 c)
     # table_b2a_base64 (c AND 63)
     # b2a_base64 bin_data"
| "b2a_base64 [a, b] =
     [table_b2a_base64 (drop_bit 2 a),
      table_b2a_base64 (push_bit 4 (a AND 3) OR drop_bit 4 b),
      table_b2a_base64 (push_bit 2 (b AND 15)),
      BASE64_PAD]"
| "b2a_base64 [a] =
     [table_b2a_base64 (drop_bit 2 a),
      table_b2a_base64 (push_bit 4 (a AND 3)),
      BASE64_PAD,
      BASE64_PAD]"
| "b2a_base64 [] = []"

definition b64encode :: "pybytes \<Rightarrow> pybytes" where
  "b64encode s = b2a_base64 s"

text \<open>
  Modelled from the spec: \<^verbatim>\<open>binascii.a2b_base64\<close> in its default, non-strict mode, the
  decoder behind \<^verbatim>\<open>base64.b64decode(s)\<close> with \<^verbatim>\<open>validate=False\<close>. The state of its loop is
  the position in the current quad, the bits left over from the previous character and
  the number of pad characters seen in a row. A character outside the alphabet is skipped;
  a pad character that completes a quad ends the decoding; input that ends inside a quad
  raises \<^verbatim>\<open>binascii.Error\<close>, and then no output is returned at all.
\<close>

definition emit :: "'a \<Rightarrow> error + 'a list \<Rightarrow> error + 'a list" where
  "emit x r = (case r of Inl e \<Rightarrow> Inl e | Inr xs \<Rightarrow> Inr (x # xs))"

fun a2b_base64 :: "nat \<Rightarrow> byte \<Rightarrow> nat \<Rightarrow> pybytes \<Rightarrow> error + pybytes" where
  "a2b_base64 quad_pos leftchar pads [] =
     (if quad_pos \<noteq> 0 then Inl BinasciiError else Inr [])"
| "a2b_base64 quad_pos leftchar pads (this_ch # ascii_data) =
     (if this_ch = BASE64_PAD then
        (if 2 \<le> quad_pos \<and> 4 \<le> quad_pos + (pads + 1) then Inr []
         else a2b_base64 quad_pos leftchar
                (if 2 \<le> quad_pos then pads + 1 else pads) ascii_data)
      else
        (case table_a2b_base64 this_ch of
           None \<Rightarrow> a2b_base64 quad_pos leftchar pads ascii_data
         | Some v \<Rightarrow>
             (if quad_pos = 0 then a2b_base64 1 v 0 ascii_data
              else if quad_pos = 1 then
                emit (push_bit 2 leftchar OR drop_bit 4 v)
                  (a2b_base64 2 (v AND 15) 0 ascii_data)
              else if quad_pos = 2 then
                emit (push_bit 4 leftchar OR drop_bit 2 v)
                  (a2b_base64 3 (v AND 3) 0 ascii_data)
              else
                emit (push_bit 6 leftchar OR v)
                  (a2b_base64 0 0 0 ascii_data))))"

text \<open>
  Modelled from the spec: \<^verbatim>\<open>base64._bytes_from_decode_data\<close>. A \<^verbatim>\<open>str\<close> must be ASCII
  (\<^verbatim>\<open>ValueError\<close> otherwise), \<^verbatim>\<open>bytes\<close> pass, anything else is a \<^verbatim>\<open>TypeError\<close>.
\<close>

definition bytes_from_decode_data :: "pyval \<Rightarrow> error + pybytes" where
  "bytes_from_decode_data s =
     (case s of
        PyStr cs \<Rightarrow>
          (if list_all (\<lambda>c. c < 128) cs then Inr (map of_nat cs)
           else Inl (ValueError ''string argument should contain only ASCII characters''))
      | PyBytes bs \<Rightarrow> Inr bs
      | PyNone \<Rightarrow> Inl TypeError
      | PyInt i \<Rightarrow> Inl TypeError)"

definition b64decode :: "pyval \<Rightarrow> error + pybytes" where
  "b64decode s =
     (case bytes_from_decode_data s of
        Inl e \<Rightarrow> Inl e
      | Inr bs \<Rightarrow> a2b_base64 0 0 0 bs)"

section \<open>UTF-8\<close>

text \<open>
  Modelled from the spec: \<^verbatim>\<open>bytes.decode('utf-8')\<close> and \<^verbatim>\<open>str.encode('utf-8')\<close> with strict
  error handling. The decoder accepts the well-formed sequences only: no continuation byte
  or overlong form in the first place, no surrogate, nothing above U+10FFFF, no truncated
  sequence. The encoder raises on a surrogate.
\<close>

definition is_continuation :: "byte \<Rightarrow> bool" where
  "is_continuation b = (128 \<le> b \<and> b < 192)"

definition is_surrogate :: "nat \<Rightarrow> bool" where
  "is_surrogate cp = (55296 \<le> cp \<and> cp \<le> 57343)"

definition codepoint2 :: "byte \<Rightarrow> byte \<Rightarrow> nat" where
  "codepoint2 b0 b1 = (unat b0 mod 32) * 64 + unat b1 mod 64"

definition codepoint3 :: "byte \<Rightarrow> byte \<Rightarrow> byte \<Rightarrow> nat" where
  "codepoint3 b0 b1 b2 = (unat b0 mod 16) * 4096 + (unat b1 mod 64) * 64 + unat b2 mod 64"

definition codepoint4 :: "byte \<Rightarrow> byte \<Rightarrow> byte \<Rightarrow> byte \<Rightarrow> nat" where
  "codepoint4 b0 b1 b2 b3 =
     (unat b0 mod 8) * 262144 + (unat b1 mod 64) * 4096 + (unat b2 mod 64) * 64 + unat b3 mod 64"

fun utf8_decode :: "pybytes \<Rightarrow> error + pystr" where
  "utf8_decode [] = Inr []"
| "utf8_decode (b0 # bs) =
     (if b0 < 128 then emit (unat b0) (utf8_decode bs)
      else if b0 < 194 then Inl UnicodeDecodeError
      else if b0 < 224 then
        (case bs of
           b1 # r \<Rightarrow>
             (if is_continuation b1 then emit (codepoint2 b0 b1) (utf8_decode r)
              else Inl UnicodeDecodeError)
         | [] \<Rightarrow> Inl UnicodeDecodeError)
      else if b0 < 240 then
        (case bs of
           b1 # b2 # r \<Rightarrow>
             (if is_continuation b1 \<and> is_continuation b2
                 \<and> 2048 \<le> codepoint3 b0 b1 b2
                 \<and> \<not> is_surrogate (codepoint3 b0 b1 b2)
              then emit (codepoint3 b0 b1 b2) (utf8_decode r)
              else Inl UnicodeDecodeError)
         | _ \<Rightarrow> Inl UnicodeDecodeError)
      else if b0 < 245 then
        (case bs of
           b1 # b2 # b3 # r \<Rightarrow>
             (if is_continuation b1 \<and> is_continuation b2 \<and> is_continuation b3
                 \<and> 65536 \<le> codepoint4 b0 b1 b2 b3
                 \<and> codepoint4 b0 b1 b2 b3 \<le> 1114111
              then emit (codepoint4 b0 b1 b2 b3) (utf8_decode r)
              else Inl UnicodeDecodeError)
         | _ \<Rightarrow> Inl UnicodeDecodeError)
      else Inl UnicodeDecodeError)"

definition utf8_char :: "nat \<Rightarrow> pybytes" where
  "utf8_char cp =
     (if cp < 128 then [of_nat cp]
      else if cp < 2048 then [of_nat (192 + cp div 64), of_nat (128 + cp mod 64)]
      else if cp < 65536 then
        [of_nat (224 + cp div 4096), of_nat (128 + cp div 64 mod 64), of_nat (128 + cp mod 64)]
      else
        [of_nat (240 + cp div 262144), of_nat (128 + cp div 4096 mod 64),
         of_nat (128 + cp div 64 mod 64), of_nat (128 + cp mod 64)])"

fun utf8_encode :: "pystr \<Rightarrow> error + pybytes" where
  "utf8_encode [] = Inr []"
| "utf8_encode (cp # cs) =
     (if is_surrogate cp then Inl UnicodeEncodeError
      else (case utf8_encode cs of
              Inl e \<Rightarrow> Inl e
            | Inr bs \<Rightarrow> Inr (utf8_char cp @ bs)))"

section \<open>Strings\<close>

text \<open>
  Modelled from the spec: the methods of Python's \<^verbatim>\<open>str\<close> that the transform uses.
  \<^verbatim>\<open>s.split(sep)\<close> with a separator of one character cuts at every occurrence and keeps
  the empty pieces, so it returns at least one piece. \<^verbatim>\<open>s.strip()\<close> removes the
  whitespace of both ends, where whitespace is what \<^verbatim>\<open>str.isspace\<close> accepts.
  \<^verbatim>\<open>sep.join(xs)\<close> puts the separator between the pieces.
\<close>

fun str_split :: "nat \<Rightarrow> pystr \<Rightarrow> pystr list" where
  "str_split sep [] = [[]]"
| "str_split sep (c # cs) =
     (if c = sep then [] # str_split sep cs
      else (case str_split sep cs of
              [] \<Rightarrow> [[c]]
            | p # ps \<Rightarrow> (c # p) # ps))"

definition isspace :: "nat \<Rightarrow> bool" where
  "isspace c =
     ((9 \<le> c \<and> c \<le> 13) \<or> (28 \<le> c \<and> c \<le> 32) \<or> c = 133 \<or> c = 160
      \<or> c = 5760 \<or> (8192 \<le> c \<and> c \<le> 8202) \<or> c = 8232 \<or> c = 8233
      \<or> c = 8239 \<or> c = 8287 \<or> c = 12288)"

definition str_strip :: "pystr \<Rightarrow> pystr" where
  "str_strip s = rev (dropWhile isspace (rev (dropWhile isspace s)))"

fun str_join :: "pystr \<Rightarrow> pystr list \<Rightarrow> pystr" where
  "str_join sep [] = []"
| "str_join sep [x] = x"
| "str_join sep (x # y # xs) = x @ sep @ str_join sep (y # xs)"

section \<open>The CSV writer\<close>

text \<open>
  Modelled from the spec: \<^verbatim>\<open>pandas.DataFrame(records, columns=...).to_csv(header=False,
  index=False)\<close>; pandas is not part of the repository. The spec (4.1, step 4) has one line
  per row, the fields joined by a comma, a field quoted only if it contains the
  delimiter, the quote or the newline, no header line, the rows in their order, each
  ended by one newline, and the empty text for no rows. A quoted field stands between double
  quotes with its own double quotes doubled; any other character, the carriage return
  among them, leaves a field as it is. The frame is the list of the rows: the rows
  that \<^verbatim>\<open>process_record\<close> collects have as many fields as there are column labels, which
  is what the constructor of the frame asks for.
\<close>

definition COMMA :: nat where
  "COMMA = 44"

definition QUOTE :: nat where
  "QUOTE = 34"

definition csv_special :: "nat \<Rightarrow> bool" where
  "csv_special c = (c = COMMA \<or> c = QUOTE \<or> c = NEWLINE)"

definition csv_field :: "pystr \<Rightarrow> pystr" where
  "csv_field f =
     (if list_ex csv_special f
      then QUOTE # concat (map (\<lambda>c. if c = QUOTE then [QUOTE, QUOTE] else [c]) f) @ [QUOTE]
      else f)"

definition csv_line :: "pystr list \<Rightarrow> pystr" where
  "csv_line cols = str_join [COMMA] (map csv_field cols)"

definition to_csv :: "pystr list list \<Rightarrow> pystr" where
  "to_csv rows = concat (map (\<lambda>cols. csv_line cols @ [NEWLINE]) rows)"

section \<open>The transform\<close>

text \<open>
  \<^verbatim>\<open>validate_environment_variables\<close> reads the module's global \<^verbatim>\<open>data_bucket\<close>, the result
  of \<^verbatim>\<open>os.environ.get('DATA_BUCKET_NAME')\<close>: \<open>None\<close> or a string. It is a parameter here.
\<close>

definition validate_environment_variables :: "pystr option \<Rightarrow> error + unit" where
  "validate_environment_variables data_bucket =
     (if data_bucket = None \<or> data_bucket = Some []
      then Inl (ValueError ''Environment variable DATA_BUCKET_NAME is not set.'')
      else Inr ())"

text \<open>
  The loop over the lines of \<^verbatim>\<open>process_record\<close>; \<open>rows\<close> is the list \<^verbatim>\<open>records\<close> it appends to.
  The inner \<^verbatim>\<open>try\<close> guards \<^verbatim>\<open>line.split\<close>, \<^verbatim>\<open>len\<close> and \<^verbatim>\<open>append\<close>, none of which raises.
\<close>

fun parse_lines :: "pystr list \<Rightarrow> pystr list list \<Rightarrow> pystr list list" where
  "parse_lines [] rows = rows"
| "parse_lines (line # lines) rows =
     (if str_strip line = [] then parse_lines lines rows
      else if length (str_split DELIMITER line) \<noteq> length CLICKSTREAM_LABELS
      then parse_lines lines rows
      else parse_lines lines (rows @ [str_split DELIMITER line]))"

text \<open>\<^verbatim>\<open>record.get('data')\<close>: the value, or \<^verbatim>\<open>None\<close> when the key is missing.\<close>

definition dict_get :: "pydict \<Rightarrow> string \<Rightarrow> pyval" where
  "dict_get d k = (case d k of None \<Rightarrow> PyNone | Some v \<Rightarrow> v)"

text \<open>\<^verbatim>\<open>record['k']\<close>: the value, or \<^verbatim>\<open>KeyError\<close> when the key is missing.\<close>

definition dict_item :: "pydict \<Rightarrow> string \<Rightarrow> error + pyval" where
  "dict_item d k = (case d k of None \<Rightarrow> Inl (KeyError k) | Some v \<Rightarrow> Inr v)"

text \<open>
  The body of the \<^verbatim>\<open>try\<close> of \<^verbatim>\<open>process_record\<close> (lines 34 to 70), statement by statement:
  decode the payload, format the log line (which reads \<^verbatim>\<open>record['recordId']\<close>), split and
  filter the lines, write the CSV, encode it, build the result (with the \<^verbatim>\<open>recordId\<close> that
  the log line has read already).
\<close>

definition process_record_try :: "pydict \<Rightarrow> error + output_record" where
  "process_record_try rcd =
     (case b64decode (dict_get rcd ''data'') of
        Inl e \<Rightarrow> Inl e
      | Inr raw \<Rightarrow>
     (case utf8_decode raw of
        Inl e \<Rightarrow> Inl e
      | Inr text \<Rightarrow>
     (case dict_item rcd ''recordId'' of
        Inl e \<Rightarrow> Inl e
      | Inr rid \<Rightarrow>
     (case utf8_encode (to_csv (parse_lines (str_split NEWLINE text) [])) of
        Inl e \<Rightarrow> Inl e
      | Inr csv_data \<Rightarrow>
     (case utf8_decode (b64encode csv_data) of
        Inl e \<Rightarrow> Inl e
      | Inr encoded_data \<Rightarrow>
          Inr \<lparr>recordId = rid, result = Ok, data = PyStr encoded_data\<rparr>)))))"

text \<open>
  The \<^verbatim>\<open>except Exception\<close> block (lines 72 to 78). It reads \<^verbatim>\<open>record['recordId']\<close> and
  \<^verbatim>\<open>record['data']\<close> again, outside any \<^verbatim>\<open>try\<close>.
\<close>

definition process_record_except :: "pydict \<Rightarrow> error + output_record" where
  "process_record_except rcd =
     (case dict_item rcd ''recordId'' of
        Inl e \<Rightarrow> Inl e
      | Inr rid \<Rightarrow>
     (case dict_item rcd ''data'' of
        Inl e \<Rightarrow> Inl e
      | Inr d \<Rightarrow> Inr \<lparr>recordId = rid, result = ProcessingFailed, data = d\<rparr>))"

definition process_record :: "pydict \<Rightarrow> error + output_record" where
  "process_record rcd =
     (case process_record_try rcd of
        Inr out \<Rightarrow> Inr out
      | Inl e \<Rightarrow> process_record_except rcd)"

text \<open>
  The loop of \<^verbatim>\<open>handler\<close> over \<^verbatim>\<open>event.get('records', [])\<close>, with the list it appends to.
  An exception of \<^verbatim>\<open>process_record\<close> is not caught here. The second argument of the
  source, \<^verbatim>\<open>context\<close>, is never read and is left out; the global \<^verbatim>\<open>data_bucket\<close> comes first.
\<close>

definition event_records :: "event \<Rightarrow> pydict list" where
  "event_records ev = (case ev ''records'' of None \<Rightarrow> [] | Some rs \<Rightarrow> rs)"

fun process_all :: "pydict list \<Rightarrow> output_record list \<Rightarrow> error + output_record list" where
  "process_all [] acc = Inr acc"
| "process_all (rcd # rcds) acc =
     (case process_record rcd of
        Inl e \<Rightarrow> Inl e
      | Inr processed_record \<Rightarrow> process_all rcds (acc @ [processed_record]))"

definition handler :: "pystr option \<Rightarrow> event \<Rightarrow> error + response" where
  "handler data_bucket ev =
     (case validate_environment_variables data_bucket of
        Inl e \<Rightarrow> Inl e
      | Inr u \<Rightarrow>
     (case process_all (event_records ev) [] of
        Inl e \<Rightarrow> Inl e
      | Inr rs \<Rightarrow> Inr \<lparr>records = rs\<rparr>))"

section \<open>The vocabulary of the specification\<close>

text \<open>
  These definitions follow the words of the specification, not the code; the theorems
  compare them with the loop of \<^verbatim>\<open>process_record\<close>. A valid line is one that is neither
  empty nor whitespace-only and that the delimiter cuts into exactly four fields; the rows
  of a text are the fields of its valid lines, in order; the plain comma-joined body has
  one line per row, the fields of the row joined by commas, with no quoting.
\<close>

definition valid_line :: "pystr \<Rightarrow> bool" where
  "valid_line line =
     (\<not> list_all isspace line \<and> length (str_split DELIMITER line) = 4)"

definition valid_rows :: "pystr \<Rightarrow> pystr list list" where
  "valid_rows text = map (str_split DELIMITER) (filter valid_line (str_split NEWLINE text))"

definition comma_joined :: "pystr list list \<Rightarrow> pystr" where
  "comma_joined rows = concat (map (\<lambda>cols. str_join [COMMA] cols @ [NEWLINE]) rows)"

section \<open>The codec: decoding an encoding gives the bytes back\<close>

lemma and3: "(x::byte) AND 3 = take_bit 2 x"
  using take_bit_eq_mask[of 2 x] by (simp add: mask_eq_exp_minus_1)
lemma and15: "(x::byte) AND 15 = take_bit 4 x"
  using take_bit_eq_mask[of 4 x] by (simp add: mask_eq_exp_minus_1)
lemma and63: "(x::byte) AND 63 = take_bit 6 x"
  using take_bit_eq_mask[of 6 x] by (simp add: mask_eq_exp_minus_1)

lemma sextet_lt: "take_bit 6 (x::byte) = x \<Longrightarrow> x < 64"
  using and_mask_less_size[of 6 x] by (simp add: word_size take_bit_eq_mask)

lemma sextet0: "drop_bit 2 (a::byte) < 64"
  by (rule sextet_lt, rule bit_word_eqI) (auto simp: bit_simps dest: bit_imp_le_length)
lemma sextet1: "push_bit 4 ((a::byte) AND 3) OR drop_bit 4 b < 64"
  by (rule sextet_lt, rule bit_word_eqI) (auto simp: bit_simps and3 dest: bit_imp_le_length)
lemma sextet2: "push_bit 2 ((b::byte) AND 15) OR drop_bit 6 c < 64"
  by (rule sextet_lt, rule bit_word_eqI) (auto simp: bit_simps and15 dest: bit_imp_le_length)
lemma sextet3: "(c::byte) AND 63 < 64"
  by (rule sextet_lt, rule bit_word_eqI) (auto simp: bit_simps and63)
lemma sextet1': "push_bit 4 ((a::byte) AND 3) < 64"
  by (rule sextet_lt, rule bit_word_eqI) (auto simp: bit_simps and3)
lemma sextet2': "push_bit 2 ((b::byte) AND 15) < 64"
  by (rule sextet_lt, rule bit_word_eqI) (auto simp: bit_simps and15)

lemma table_all64:
  "list_all (\<lambda>i. table_a2b_base64 (table_b2a_base64 i) = Some i \<and> table_b2a_base64 i \<noteq> BASE64_PAD \<and> table_b2a_base64 i < 128)
     (map of_nat [0..<64])"
  by code_simp

lemma table_inverse:
  assumes "i < 64"
  shows "table_a2b_base64 (table_b2a_base64 i) = Some i"
    and "table_b2a_base64 i \<noteq> BASE64_PAD"
    and "table_b2a_base64 i < 128"
proof -
  have "unat i < 64" using assms by (simp add: word_less_nat_alt)
  then have "of_nat (unat i) \<in> set (map of_nat [0..<64] :: byte list)"
    by (simp del: of_nat_unat)
  then have "i \<in> set (map of_nat [0..<64] :: byte list)" by simp
  with table_all64 show "table_a2b_base64 (table_b2a_base64 i) = Some i"
    and "table_b2a_base64 i \<noteq> BASE64_PAD"
    and "table_b2a_base64 i < 128"
    unfolding list_all_iff by blast+
qed


lemma byte0: "push_bit 2 (drop_bit 2 a) OR drop_bit 4 (push_bit 4 (a AND 3) OR drop_bit 4 b) = (a::byte)"
  apply (rule bit_word_eqI)
  apply (simp add: bit_simps and3)
  apply (case_tac "2 \<le> n")
   apply (simp_all add: Suc_diff_Suc numeral_2_eq_2 not_le)
  done

lemma byte0': "push_bit 2 (drop_bit 2 a) OR drop_bit 4 (push_bit 4 (a AND 3)) = (a::byte)"
  apply (rule bit_word_eqI)
  apply (simp add: bit_simps and3)
  apply (case_tac "2 \<le> n")
   apply (simp_all add: Suc_diff_Suc numeral_2_eq_2 not_le)
  done

lemma byte1: "push_bit 4 ((push_bit 4 (a AND 3) OR drop_bit 4 b) AND 15) OR drop_bit 2 (push_bit 2 (b AND 15) OR drop_bit 6 c) = (b::byte)"
  apply (rule bit_word_eqI)
  apply (simp add: bit_simps and3 and15)
  apply (case_tac "4 \<le> n")
   apply (auto simp add: not_le)
  done

lemma byte1': "push_bit 4 ((push_bit 4 (a AND 3) OR drop_bit 4 b) AND 15) OR drop_bit 2 (push_bit 2 (b AND 15)) = (b::byte)"
  apply (rule bit_word_eqI)
  apply (simp add: bit_simps and3 and15)
  apply (case_tac "4 \<le> n")
   apply (auto simp add: not_le)
  done

lemma byte2: "push_bit 6 ((push_bit 2 (b AND 15) OR drop_bit 6 c) AND 3) OR (c AND 63) = (c::byte)"
  apply (rule bit_word_eqI)
  apply (simp add: bit_simps and3 and15 and63)
  apply (case_tac "6 \<le> n")
   apply (auto simp add: not_le)
  done

lemma a2b_step0:
  "i < 64 \<Longrightarrow> a2b_base64 0 l p (table_b2a_base64 i # cs) = a2b_base64 1 i 0 cs"
  using table_inverse[of i] by simp

lemma a2b_step1:
  "i < 64 \<Longrightarrow> a2b_base64 1 l p (table_b2a_base64 i # cs) =
     emit (push_bit 2 l OR drop_bit 4 i) (a2b_base64 2 (i AND 15) 0 cs)"
  using table_inverse[of i] by simp

lemma a2b_step2:
  "i < 64 \<Longrightarrow> a2b_base64 2 l p (table_b2a_base64 i # cs) =
     emit (push_bit 4 l OR drop_bit 2 i) (a2b_base64 3 (i AND 3) 0 cs)"
  using table_inverse[of i] by simp

lemma a2b_step3:
  "i < 64 \<Longrightarrow> a2b_base64 3 l p (table_b2a_base64 i # cs) =
     emit (push_bit 6 l OR i) (a2b_base64 0 0 0 cs)"
  using table_inverse[of i] by simp

lemma a2b_pad_end2: "a2b_base64 2 l 0 [BASE64_PAD, BASE64_PAD] = Inr []"
  by simp

lemma a2b_pad_end3: "a2b_base64 3 l 0 [BASE64_PAD] = Inr []"
  by simp

lemma a2b_quad:
  "a2b_base64 0 l p
     (table_b2a_base64 (drop_bit 2 a)
      # table_b2a_base64 (push_bit 4 (a AND 3) OR drop_bit 4 b)
      # table_b2a_base64 (push_bit 2 (b AND 15) OR drop_bit 6 c)
      # table_b2a_base64 (c AND 63) # cs)
   = emit a (emit b (emit c (a2b_base64 0 0 0 cs)))"
  by (simp only: a2b_step0[OF sextet0] a2b_step1[OF sextet1] a2b_step2[OF sextet2]
        a2b_step3[OF sextet3] byte0 byte1 byte2)

lemma a2b_pad1:
  "a2b_base64 0 l p
     [table_b2a_base64 (drop_bit 2 a),
      table_b2a_base64 (push_bit 4 (a AND 3) OR drop_bit 4 b),
      table_b2a_base64 (push_bit 2 (b AND 15)), BASE64_PAD]
   = Inr [a, b]"
  by (simp only: a2b_step0[OF sextet0] a2b_step1[OF sextet1] a2b_step2[OF sextet2']
        a2b_pad_end3 byte0 byte1' emit_def sum.case)

lemma a2b_pad2:
  "a2b_base64 0 l p
     [table_b2a_base64 (drop_bit 2 a),
      table_b2a_base64 (push_bit 4 (a AND 3)), BASE64_PAD, BASE64_PAD]
   = Inr [a]"
  by (simp only: a2b_step0[OF sextet0] a2b_step1[OF sextet1'] a2b_pad_end2 byte0'
        emit_def sum.case)

lemma a2b_b2a: "a2b_base64 0 0 0 (b2a_base64 bs) = Inr bs"
proof (induction bs rule: b2a_base64.induct)
  case (1 a b c bin_data)
  then show ?case by (simp only: b2a_base64.simps a2b_quad emit_def sum.case)
next
  case (2 a b)
  show ?case by (simp only: b2a_base64.simps a2b_pad1)
next
  case (3 a)
  show ?case by (simp only: b2a_base64.simps a2b_pad2)
next
  case 4
  show ?case by simp
qed


lemma b2a_base64_ascii: "list_all (\<lambda>c. c < 128) (b2a_base64 bs)"
proof (induction bs rule: b2a_base64.induct)
  case (1 a b c bin_data)
  then show ?case
    by (simp only: b2a_base64.simps list.pred_inject table_inverse(3)[OF sextet0]
        table_inverse(3)[OF sextet1] table_inverse(3)[OF sextet2] table_inverse(3)[OF sextet3]
        simp_thms)
next
  case (2 a b)
  have "BASE64_PAD < 128" by (simp add: BASE64_PAD_def)
  then show ?case
    by (simp only: b2a_base64.simps list.pred_inject table_inverse(3)[OF sextet0]
        table_inverse(3)[OF sextet1] table_inverse(3)[OF sextet2'] simp_thms)
next
  case (3 a)
  have "BASE64_PAD < 128" by (simp add: BASE64_PAD_def)
  then show ?case
    by (simp only: b2a_base64.simps list.pred_inject table_inverse(3)[OF sextet0]
        table_inverse(3)[OF sextet1'] simp_thms)
next
  case 4
  show ?case by simp
qed

lemma utf8_decode_ascii:
  "list_all (\<lambda>c. c < 128) bs \<Longrightarrow> utf8_decode bs = Inr (map unat bs)"
  by (induction bs) (simp_all add: emit_def)

lemma of_nat_unat_bytes: "map (of_nat \<circ> unat) bs = (bs :: pybytes)"
  by (induction bs) simp_all

lemma unat_ascii: "list_all (\<lambda>c. c < 128) (bs::pybytes) \<Longrightarrow> list_all (\<lambda>c. c < 128) (map unat bs)"
  by (induction bs) (simp_all add: word_less_nat_alt)

lemma b64decode_str_b64encode:
  "b64decode (PyStr (map unat (b64encode bs))) = Inr bs"
  using unat_ascii[OF b2a_base64_ascii[of bs]]
  by (simp add: b64decode_def bytes_from_decode_data_def b64encode_def of_nat_unat_bytes a2b_b2a
      del: a2b_base64.simps)

lemma b64decode_bytes_b64encode:
  "b64decode (PyBytes (b64encode bs)) = Inr bs"
  by (simp add: b64decode_def bytes_from_decode_data_def b64encode_def a2b_b2a)

lemma emit_Inr: "emit x r = Inr ys \<Longrightarrow> \<exists>xs. r = Inr xs \<and> ys = x # xs"
  by (cases r) (simp_all add: emit_def)

lemma codepoint2_bound: "codepoint2 b0 b1 < 2048"
proof -
  have "unat b0 mod 32 \<le> 31" "unat b1 mod 64 \<le> 63" by simp_all
  then show ?thesis unfolding codepoint2_def by linarith
qed

lemma utf8_decode_no_surrogate:
  "utf8_decode bs = Inr t \<Longrightarrow> list_all (\<lambda>c. \<not> is_surrogate c) t"
proof (induction bs arbitrary: t rule: utf8_decode.induct)
  case 1
  then show ?case by simp
next
  case (2 b0 bs)
  show ?case
  proof (cases "b0 < 128")
    case True
    with "2.prems" obtain xs where xs: "utf8_decode bs = Inr xs" "t = unat b0 # xs"
      by (auto dest: emit_Inr)
    have "unat b0 < 128" using True by (simp add: word_less_nat_alt)
    then have "\<not> is_surrogate (unat b0)" by (simp add: is_surrogate_def)
    with "2.IH"(1)[OF True xs(1)] xs(2) show ?thesis by simp
  next
    case False
    note f1 = False
    show ?thesis
    proof (cases "b0 < 194")
      case True
      with f1 "2.prems" show ?thesis by simp
    next
      case False
      note f2 = False
      show ?thesis
      proof (cases "b0 < 224")
        case True
        with f1 f2 "2.prems" obtain b1 r xs where
          *: "bs = b1 # r" "is_continuation b1" "utf8_decode r = Inr xs" "t = codepoint2 b0 b1 # xs"
          by (auto split: list.splits if_splits dest: emit_Inr)
        have "\<not> is_surrogate (codepoint2 b0 b1)"
          using codepoint2_bound[of b0 b1] by (simp add: is_surrogate_def)
        with "2.IH"(2)[OF f1 f2 True *(1) *(2) *(3)] *(4) show ?thesis by simp
      next
        case False
        note f3 = False
        show ?thesis
        proof (cases "b0 < 240")
          case True
          with f1 f2 f3 "2.prems" obtain b1 b2 r xs where
            *: "bs = b1 # b2 # r"
               "is_continuation b1 \<and> is_continuation b2 \<and> 2048 \<le> codepoint3 b0 b1 b2
                 \<and> \<not> is_surrogate (codepoint3 b0 b1 b2)"
               "utf8_decode r = Inr xs" "t = codepoint3 b0 b1 b2 # xs"
            by (auto split: list.splits if_splits dest: emit_Inr)
          from "2.IH"(3)[OF f1 f2 f3 True _ _ *(2) *(3)] * show ?thesis by simp
        next
          case False
          note f4 = False
          show ?thesis
          proof (cases "b0 < 245")
            case True
            with f1 f2 f3 f4 "2.prems" obtain b1 b2 b3 r xs where
              *: "bs = b1 # b2 # b3 # r"
                 "is_continuation b1 \<and> is_continuation b2 \<and> is_continuation b3
                   \<and> 65536 \<le> codepoint4 b0 b1 b2 b3 \<and> codepoint4 b0 b1 b2 b3 \<le> 1114111"
                 "utf8_decode r = Inr xs" "t = codepoint4 b0 b1 b2 b3 # xs"
              by (auto split: list.splits if_splits dest: emit_Inr)
            have "\<not> is_surrogate (codepoint4 b0 b1 b2 b3)"
              using *(2) by (simp add: is_surrogate_def)
            with "2.IH"(4)[OF f1 f2 f3 f4 True _ _ _ *(2) *(3)] * show ?thesis by simp
          next
            case False
            with f1 f2 f3 f4 "2.prems" show ?thesis by simp
          qed
        qed
      qed
    qed
  qed
qed

section \<open>Splitting, stripping and the loop over the lines\<close>

lemma str_split_not_Nil: "str_split sep s \<noteq> []"
  by (induction s) (simp_all split: list.splits)

lemma str_split_no_sep: "p \<in> set (str_split sep s) \<Longrightarrow> sep \<notin> set p"
proof (induction s arbitrary: p)
  case Nil
  then show ?case by simp
next
  case (Cons c cs)
  show ?case
  proof (cases "c = sep")
    case True
    with Cons show ?thesis by auto
  next
    case False
    obtain q qs where q: "str_split sep cs = q # qs"
      using str_split_not_Nil[of sep cs] by (cases "str_split sep cs") auto
    with Cons.prems False have "p = c # q \<or> p \<in> set qs" by simp
    then show ?thesis using Cons.IH q False by auto
  qed
qed

lemma str_split_subset: "p \<in> set (str_split sep s) \<Longrightarrow> set p \<subseteq> set s"
proof (induction s arbitrary: p)
  case Nil
  then show ?case by simp
next
  case (Cons c cs)
  show ?case
  proof (cases "c = sep")
    case True
    with Cons show ?thesis by auto
  next
    case False
    obtain q qs where q: "str_split sep cs = q # qs"
      using str_split_not_Nil[of sep cs] by (cases "str_split sep cs") auto
    with Cons.prems False have "p = c # q \<or> p \<in> set qs" by simp
    then show ?thesis
    proof
      assume "p = c # q"
      moreover have "set q \<subseteq> set cs" using Cons.IH[of q] q by simp
      ultimately show ?thesis by auto
    next
      assume "p \<in> set qs"
      then have "set p \<subseteq> set cs" using Cons.IH[of p] q by simp
      then show ?thesis by auto
    qed
  qed
qed

lemma str_split_line: "sep \<notin> set l \<Longrightarrow> str_split sep (l @ sep # rest) = l # str_split sep rest"
  by (induction l) (simp_all split: list.splits)

lemma str_split_lines:
  "list_all (\<lambda>l. sep \<notin> set l) ls \<Longrightarrow>
   str_split sep (concat (map (\<lambda>l. l @ [sep]) ls)) = ls @ [[]]"
  by (induction ls) (simp_all add: str_split_line)

lemma str_split_whole: "sep \<notin> set l \<Longrightarrow> str_split sep l = [l]"
  by (induction l) (simp_all split: list.splits)

lemma str_split_join:
  "list_all (\<lambda>f. sep \<notin> set f) fs \<Longrightarrow> fs \<noteq> [] \<Longrightarrow> str_split sep (str_join [sep] fs) = fs"
proof (induction fs)
  case Nil
  then show ?case by simp
next
  case (Cons x xs)
  show ?case
  proof (cases xs)
    case Nil
    with Cons.prems show ?thesis by (simp add: str_split_whole)
  next
    case (Cons y ys)
    with Cons.prems Cons.IH show ?thesis by (simp add: str_split_line)
  qed
qed

lemma str_strip_Nil: "(str_strip s = []) = list_all isspace s"
proof
  assume "list_all isspace s"
  then have e: "dropWhile isspace s = []" by (simp add: list_all_iff)
  show "str_strip s = []" unfolding str_strip_def e by simp
next
  assume a: "str_strip s = []"
  define d where "d = dropWhile isspace s"
  from a have all: "\<forall>x\<in>set d. isspace x"
    by (simp add: str_strip_def d_def)
  have "d = []"
  proof (rule ccontr)
    assume n: "d \<noteq> []"
    then have "\<not> isspace (hd d)" unfolding d_def by (rule hd_dropWhile)
    moreover have "hd d \<in> set d" using n by simp
    ultimately show False using all by blast
  qed
  then show "list_all isspace s" by (simp add: d_def list_all_iff)
qed

lemma labels_length: "length CLICKSTREAM_LABELS = 4"
  by (simp add: CLICKSTREAM_LABELS_def)

lemma parse_lines_filter:
  "parse_lines ls rows = rows @ map (str_split DELIMITER) (filter valid_line ls)"
  by (induction ls arbitrary: rows) (simp_all add: str_strip_Nil labels_length valid_line_def)

lemma parse_lines_valid_rows: "parse_lines (str_split NEWLINE text) [] = valid_rows text"
  by (simp add: parse_lines_filter valid_rows_def)

section \<open>The CSV text and the two branches of the transform\<close>

lemma utf8_encode_total:
  "list_all (\<lambda>c. \<not> is_surrogate c) t \<Longrightarrow> \<exists>bs. utf8_encode t = Inr bs"
  by (induction t) auto

lemma csv_field_subset: "set (csv_field f) \<subseteq> insert QUOTE (set f)"
  by (auto simp: csv_field_def split: if_splits)

lemma str_join_subset: "set (str_join sep xs) \<subseteq> set sep \<union> \<Union>(set ` set xs)"
  by (induction sep xs rule: str_join.induct) auto

lemma csv_line_subset:
  "set (csv_line cols) \<subseteq> {COMMA, QUOTE} \<union> \<Union>(set ` set cols)"
proof -
  have "set (csv_line cols) \<subseteq> {COMMA} \<union> \<Union>(set ` set (map csv_field cols))"
    unfolding csv_line_def using str_join_subset[of "[COMMA]" "map csv_field cols"] by simp
  also have "\<dots> \<subseteq> {COMMA, QUOTE} \<union> \<Union>(set ` set cols)"
    using csv_field_subset by fastforce
  finally show ?thesis .
qed

lemma to_csv_simps:
  "to_csv [] = []"
  "to_csv (cols # rows) = csv_line cols @ NEWLINE # to_csv rows"
  by (simp_all add: to_csv_def)

lemma to_csv_subset:
  "set (to_csv rows) \<subseteq> {COMMA, QUOTE, NEWLINE} \<union> \<Union>(set ` \<Union>(set ` set rows))"
proof (induction rows)
  case Nil
  show ?case by (simp add: to_csv_simps)
next
  case (Cons cols rows)
  from csv_line_subset[of cols] Cons show ?case
    by (auto simp: to_csv_simps)
qed

lemma valid_rows_subset:
  "cols \<in> set (valid_rows text) \<Longrightarrow> f \<in> set cols \<Longrightarrow> set f \<subseteq> set text"
proof -
  assume "cols \<in> set (valid_rows text)" "f \<in> set cols"
  then obtain l where l: "l \<in> set (str_split NEWLINE text)" "f \<in> set (str_split DELIMITER l)"
    by (auto simp: valid_rows_def)
  then show ?thesis using str_split_subset[of l NEWLINE "text"] str_split_subset[of f DELIMITER l]
    by blast
qed

lemma valid_rows_no_newline:
  "cols \<in> set (valid_rows text) \<Longrightarrow> f \<in> set cols \<Longrightarrow> NEWLINE \<notin> set f"
proof -
  assume "cols \<in> set (valid_rows text)" "f \<in> set cols"
  then obtain l where l: "l \<in> set (str_split NEWLINE text)" "f \<in> set (str_split DELIMITER l)"
    by (auto simp: valid_rows_def)
  then show ?thesis using str_split_no_sep[of l NEWLINE "text"] str_split_subset[of f DELIMITER l]
    by blast
qed

lemma valid_rows_length: "cols \<in> set (valid_rows text) \<Longrightarrow> length cols = 4"
  by (auto simp: valid_rows_def valid_line_def)

lemma csv_text_no_surrogate:
  assumes "list_all (\<lambda>c. \<not> is_surrogate c) text"
  shows "list_all (\<lambda>c. \<not> is_surrogate c) (to_csv (valid_rows text))"
proof -
  have "\<not> is_surrogate c" if "c \<in> set (to_csv (valid_rows text))" for c
  proof -
    from that to_csv_subset[of "valid_rows text"]
    have "c \<in> {COMMA, QUOTE, NEWLINE} \<or> (\<exists>cols f. cols \<in> set (valid_rows text) \<and> f \<in> set cols \<and> c \<in> set f)"
      by auto
    then show ?thesis
    proof
      assume "c \<in> {COMMA, QUOTE, NEWLINE}"
      then show ?thesis by (auto simp: COMMA_def QUOTE_def NEWLINE_def is_surrogate_def)
    next
      assume "\<exists>cols f. cols \<in> set (valid_rows text) \<and> f \<in> set cols \<and> c \<in> set f"
      then have "c \<in> set text" using valid_rows_subset by blast
      with assms show ?thesis by (simp add: list_all_iff)
    qed
  qed
  then show ?thesis by (simp add: list_all_iff)
qed

text \<open>The body of the try, when the payload decodes.\<close>

lemma process_record_try_decoded:
  assumes rid: "rcd ''recordId'' = Some rid"
    and b64: "b64decode (dict_get rcd ''data'') = Inr raw"
    and utf: "utf8_decode raw = Inr text"
  shows "\<exists>csv_data. utf8_encode (to_csv (valid_rows text)) = Inr csv_data
     \<and> process_record_try rcd =
         Inr \<lparr>recordId = rid, result = Ok, data = PyStr (map unat (b64encode csv_data))\<rparr>"
proof -
  from utf8_decode_no_surrogate[OF utf] csv_text_no_surrogate
  have "list_all (\<lambda>c. \<not> is_surrogate c) (to_csv (valid_rows text))" by blast
  then obtain csv_data where enc: "utf8_encode (to_csv (valid_rows text)) = Inr csv_data"
    using utf8_encode_total by blast
  have asc: "utf8_decode (b64encode csv_data) = Inr (map unat (b64encode csv_data))"
    unfolding b64encode_def by (rule utf8_decode_ascii[OF b2a_base64_ascii])
  have "process_record_try rcd =
         Inr \<lparr>recordId = rid, result = Ok, data = PyStr (map unat (b64encode csv_data))\<rparr>"
    by (simp add: process_record_try_def b64 utf rid dict_item_def parse_lines_valid_rows enc asc)
  with enc show ?thesis by blast
qed

lemma process_record_try_failed:
  "b64decode (dict_get rcd ''data'') = Inl e \<Longrightarrow> process_record_try rcd = Inl e"
  "b64decode (dict_get rcd ''data'') = Inr raw \<Longrightarrow> utf8_decode raw = Inl e \<Longrightarrow>
     process_record_try rcd = Inl e"
  by (simp_all add: process_record_try_def)

lemma process_record_except_fields:
  "rcd ''recordId'' = Some rid \<Longrightarrow> rcd ''data'' = Some d \<Longrightarrow>
   process_record_except rcd = Inr \<lparr>recordId = rid, result = ProcessingFailed, data = d\<rparr>"
  by (simp add: process_record_except_def dict_item_def)

lemma process_record_recordId:
  "process_record rcd = Inr out \<Longrightarrow> rcd ''recordId'' = Some (recordId out)"
  by (auto simp: process_record_def process_record_try_def process_record_except_def
      dict_item_def split: sum.splits option.splits)

lemma process_record_try_result:
  "process_record_try rcd = Inr out \<Longrightarrow> result out = Ok"
  by (auto simp: process_record_try_def split: sum.splits)

lemma process_record_with_fields:
  assumes "rcd ''recordId'' = Some rid" and "rcd ''data'' = Some d"
  shows "process_record rcd =
     (case process_record_try rcd of
        Inr out \<Rightarrow> Inr out
      | Inl e \<Rightarrow> Inr \<lparr>recordId = rid, result = ProcessingFailed, data = d\<rparr>)"
  by (simp add: process_record_def process_record_except_fields[OF assms] split: sum.splits)

lemma process_record_try_recordId:
  "process_record_try rcd = Inr out \<Longrightarrow> rcd ''recordId'' = Some (recordId out)"
  by (auto simp: process_record_try_def dict_item_def split: sum.splits option.splits)

lemma parse_lines_drop:
  "\<not> valid_line line \<Longrightarrow> parse_lines (xs @ line # ys) rows = parse_lines (xs @ ys) rows"
  by (simp add: parse_lines_filter)

lemma b64decode_empty: "b64decode (PyStr []) = Inr []"
  by (simp add: b64decode_def bytes_from_decode_data_def)

lemma csv_field_plain: "\<not> list_ex csv_special f \<Longrightarrow> csv_field f = f"
  by (simp add: csv_field_def)

lemma csv_line_plain:
  "list_all (\<lambda>f. \<not> list_ex csv_special f) cols \<Longrightarrow> csv_line cols = str_join [COMMA] cols"
proof -
  assume "list_all (\<lambda>f. \<not> list_ex csv_special f) cols"
  then have "map csv_field cols = cols"
    by (induction cols) (simp_all add: csv_field_plain)
  then show ?thesis by (simp add: csv_line_def)
qed

lemma to_csv_plain:
  "list_all (list_all (\<lambda>f. \<not> list_ex csv_special f)) rows \<Longrightarrow> to_csv rows = comma_joined rows"
  by (induction rows) (simp_all add: to_csv_simps comma_joined_def csv_line_plain)

lemma plain_no_comma: "\<not> list_ex csv_special f \<Longrightarrow> COMMA \<notin> set f"
  by (auto simp: list_ex_iff csv_special_def)

lemma csv_line_split_plain:
  assumes "list_all (\<lambda>f. \<not> list_ex csv_special f) cols" and "cols \<noteq> []"
  shows "str_split COMMA (csv_line cols) = cols"
proof -
  have "list_all (\<lambda>f. COMMA \<notin> set f) cols"
    using assms(1) plain_no_comma by (auto simp: list_all_iff)
  then show ?thesis
    using assms by (simp add: csv_line_plain str_split_join)
qed

lemma csv_line_no_newline:
  assumes "cols \<in> set (valid_rows text)"
  shows "NEWLINE \<notin> set (csv_line cols)"
proof
  assume "NEWLINE \<in> set (csv_line cols)"
  with csv_line_subset[of cols]
  have "NEWLINE \<in> {COMMA, QUOTE} \<or> (\<exists>f\<in>set cols. NEWLINE \<in> set f)" by auto
  then show False
    using valid_rows_no_newline[OF assms] by (auto simp: NEWLINE_def COMMA_def QUOTE_def)
qed

lemma to_csv_lines:
  "str_split NEWLINE (to_csv (valid_rows text)) = map csv_line (valid_rows text) @ [[]]"
proof -
  have "list_all (\<lambda>l. NEWLINE \<notin> set l) (map csv_line (valid_rows text))"
    using csv_line_no_newline by (auto simp: list_all_iff)
  from str_split_lines[OF this] show ?thesis
    by (simp add: to_csv_def comp_def)
qed

section \<open>UTF-8: decoding an encoding gives the text back\<close>

lemma byte_of_nat: "n < 256 \<Longrightarrow> unat (of_nat n :: byte) = n"
  by (simp add: unat_of_nat)

lemma mod_offset: "q < m \<Longrightarrow> (k * m + q) mod m = (q::nat)"
  by simp

lemma cont_mod: "(128 + r mod 64) mod 64 = r mod (64::nat)"
  using mod_offset[of "r mod 64" 64 2] by simp

lemma shift64: "(a::nat) div 64 * (64 * k) + a mod 64 * k = a * k"
proof -
  have "(a div 64 * 64 + a mod 64) * k = a * k" by (simp only: div_mult_mod_eq)
  moreover have "(a div 64 * 64 + a mod 64) * k = a div 64 * (64 * k) + a mod 64 * k"
    by (simp only: add_mult_distrib mult.assoc)
  ultimately show ?thesis by (simp only:)
qed

lemma split3:
  "cp div 4096 * 4096 + cp div 64 mod 64 * 64 + cp mod 64 = (cp::nat)"
proof -
  have 1: "cp div 4096 = cp div 64 div 64" by (simp add: div_mult2_eq)
  have "cp div 64 div 64 * 4096 + cp div 64 mod 64 * 64 = cp div 64 * 64"
    using shift64[of "cp div 64" 64] by simp
  then show ?thesis unfolding 1 by simp
qed

lemma split4:
  "cp div 262144 * 262144 + cp div 4096 mod 64 * 4096 + cp div 64 mod 64 * 64 + cp mod 64
     = (cp::nat)"
proof -
  have 1: "cp div 262144 = cp div 4096 div 64" by (simp add: div_mult2_eq)
  have "cp div 4096 div 64 * 262144 + cp div 4096 mod 64 * 4096 = cp div 4096 * 4096"
    using shift64[of "cp div 4096" 4096] by simp
  then have "cp div 262144 * 262144 + cp div 4096 mod 64 * 4096 + cp div 64 mod 64 * 64
      + cp mod 64 = cp div 4096 * 4096 + cp div 64 mod 64 * 64 + cp mod 64"
    unfolding 1 by simp
  then show ?thesis by (simp only: split3)
qed

lemma utf8_char1:
  assumes "cp < 128"
  shows "utf8_decode (utf8_char cp @ bs) = emit cp (utf8_decode bs)"
proof -
  have u: "unat (of_nat cp :: byte) = cp" using assms by (simp add: byte_of_nat)
  then have "(of_nat cp :: byte) < 128" by (simp add: word_less_nat_alt assms)
  then show ?thesis using assms u by (simp add: utf8_char_def)
qed

lemma utf8_char2:
  assumes "128 \<le> cp" "cp < 2048"
  shows "utf8_decode (utf8_char cp @ bs) = emit cp (utf8_decode bs)"
proof -
  define b0 :: byte where "b0 = of_nat (192 + cp div 64)"
  define b1 :: byte where "b1 = of_nat (128 + cp mod 64)"
  have q: "2 \<le> cp div 64" "cp div 64 < 32" using assms by simp_all
  have "192 + cp div 64 < 256" using q by simp
  from byte_of_nat[OF this] have u0: "unat b0 = 192 + cp div 64" unfolding b0_def .
  have "128 + cp mod 64 < 256" by simp
  from byte_of_nat[OF this] have u1: "unat b1 = 128 + cp mod 64" unfolding b1_def .
  have c0: "\<not> b0 < 128" "\<not> b0 < 194" "b0 < 224"
    using q by (simp_all add: word_less_nat_alt u0)
  have c1: "is_continuation b1"
    by (simp add: is_continuation_def word_less_nat_alt word_le_nat_alt u1)
  have "(192 + cp div 64) mod 32 = cp div 64" using mod_offset[of "cp div 64" 32 6] q by simp
  then have cp: "codepoint2 b0 b1 = cp" by (simp add: codepoint2_def u0 u1 cont_mod del: mod_add_self1 mod_add_self2)
  have "utf8_char cp = [b0, b1]" using assms by (simp add: utf8_char_def b0_def b1_def)
  then show ?thesis using c0 c1 cp by simp
qed

lemma utf8_char3:
  assumes "2048 \<le> cp" "cp < 65536" "\<not> is_surrogate cp"
  shows "utf8_decode (utf8_char cp @ bs) = emit cp (utf8_decode bs)"
proof -
  define b0 :: byte where "b0 = of_nat (224 + cp div 4096)"
  define b1 :: byte where "b1 = of_nat (128 + cp div 64 mod 64)"
  define b2 :: byte where "b2 = of_nat (128 + cp mod 64)"
  have q: "cp div 4096 < 16" using assms by simp
  have "224 + cp div 4096 < 256" using q by simp
  from byte_of_nat[OF this] have u0: "unat b0 = 224 + cp div 4096" unfolding b0_def .
  have "128 + cp div 64 mod 64 < 256" by simp
  from byte_of_nat[OF this] have u1: "unat b1 = 128 + cp div 64 mod 64" unfolding b1_def .
  have "128 + cp mod 64 < 256" by simp
  from byte_of_nat[OF this] have u2: "unat b2 = 128 + cp mod 64" unfolding b2_def .
  have c0: "\<not> b0 < 128" "\<not> b0 < 194" "\<not> b0 < 224" "b0 < 240"
    using q by (simp_all add: word_less_nat_alt u0)
  have c1: "is_continuation b1" "is_continuation b2"
    by (simp_all add: is_continuation_def word_less_nat_alt word_le_nat_alt u1 u2)
  have "(224 + cp div 4096) mod 16 = cp div 4096"
    using mod_offset[of "cp div 4096" 16 14] q by simp
  moreover have "cp div 4096 * 4096 + cp div 64 mod 64 * 64 + cp mod 64 = cp" by (rule split3)
  ultimately have cp: "codepoint3 b0 b1 b2 = cp" by (simp only: codepoint3_def u0 u1 u2 cont_mod)
  have "utf8_char cp = [b0, b1, b2]" using assms by (simp add: utf8_char_def b0_def b1_def b2_def)
  then show ?thesis using c0 c1 cp assms by simp
qed

lemma utf8_char4:
  assumes "65536 \<le> cp" "cp \<le> 1114111"
  shows "utf8_decode (utf8_char cp @ bs) = emit cp (utf8_decode bs)"
proof -
  define b0 :: byte where "b0 = of_nat (240 + cp div 262144)"
  define b1 :: byte where "b1 = of_nat (128 + cp div 4096 mod 64)"
  define b2 :: byte where "b2 = of_nat (128 + cp div 64 mod 64)"
  define b3 :: byte where "b3 = of_nat (128 + cp mod 64)"
  have q: "cp div 262144 < 5" using assms by simp
  have "240 + cp div 262144 < 256" using q by simp
  from byte_of_nat[OF this] have u0: "unat b0 = 240 + cp div 262144" unfolding b0_def .
  have "128 + cp div 4096 mod 64 < 256" by simp
  from byte_of_nat[OF this] have u1: "unat b1 = 128 + cp div 4096 mod 64" unfolding b1_def .
  have "128 + cp div 64 mod 64 < 256" by simp
  from byte_of_nat[OF this] have u2: "unat b2 = 128 + cp div 64 mod 64" unfolding b2_def .
  have "128 + cp mod 64 < 256" by simp
  from byte_of_nat[OF this] have u3: "unat b3 = 128 + cp mod 64" unfolding b3_def .
  have c0: "\<not> b0 < 128" "\<not> b0 < 194" "\<not> b0 < 224" "\<not> b0 < 240" "b0 < 245"
    using q by (simp_all add: word_less_nat_alt u0)
  have c1: "is_continuation b1" "is_continuation b2" "is_continuation b3"
    by (simp_all add: is_continuation_def word_less_nat_alt word_le_nat_alt u1 u2 u3)
  have "(240 + cp div 262144) mod 8 = cp div 262144"
    using mod_offset[of "cp div 262144" 8 30] q by simp
  moreover have "cp div 262144 * 262144 + cp div 4096 mod 64 * 4096 + cp div 64 mod 64 * 64
      + cp mod 64 = cp" by (rule split4)
  ultimately have cp: "codepoint4 b0 b1 b2 b3 = cp" by (simp only: codepoint4_def u0 u1 u2 u3 cont_mod)
  have "utf8_char cp = [b0, b1, b2, b3]"
    using assms by (simp add: utf8_char_def b0_def b1_def b2_def b3_def)
  then show ?thesis using c0 c1 cp assms by simp
qed

lemma utf8_char_decode:
  assumes "cp \<le> 1114111" "\<not> is_surrogate cp"
  shows "utf8_decode (utf8_char cp @ bs) = emit cp (utf8_decode bs)"
proof -
  consider "cp < 128" | "128 \<le> cp" "cp < 2048" | "2048 \<le> cp" "cp < 65536" | "65536 \<le> cp"
    by linarith
  then show ?thesis
    using assms utf8_char1 utf8_char2 utf8_char3 utf8_char4 by cases blast+
qed

lemma utf8_decode_encode:
  "list_all (\<lambda>c. c \<le> 1114111 \<and> \<not> is_surrogate c) t \<Longrightarrow> utf8_encode t = Inr bs \<Longrightarrow>
   utf8_decode bs = Inr t"
proof (induction t arbitrary: bs)
  case Nil
  then show ?case by simp
next
  case (Cons cp cs)
  from Cons.prems obtain bs' where e: "utf8_encode cs = Inr bs'" "bs = utf8_char cp @ bs'"
    by (auto split: sum.splits if_splits)
  from Cons.IH[OF _ e(1)] Cons.prems(1) have "utf8_decode bs' = Inr cs" by simp
  with Cons.prems(1) e(2) show ?case by (simp add: utf8_char_decode emit_def)
qed

lemma codepoint3_bound: "codepoint3 b0 b1 b2 < 65536"
proof -
  have "unat b0 mod 16 \<le> 15" "unat b1 mod 64 \<le> 63" "unat b2 mod 64 \<le> 63" by simp_all
  then show ?thesis unfolding codepoint3_def by linarith
qed

lemma utf8_decode_bound:
  "utf8_decode bs = Inr t \<Longrightarrow> list_all (\<lambda>c. c \<le> 1114111) t"
proof (induction bs arbitrary: t rule: utf8_decode.induct)
  case 1
  then show ?case by simp
next
  case (2 b0 bs)
  consider (a) "b0 < 128" | (b) "\<not> b0 < 128" "b0 < 194"
    | (c) "\<not> b0 < 128" "\<not> b0 < 194" "b0 < 224"
    | (d) "\<not> b0 < 128" "\<not> b0 < 194" "\<not> b0 < 224" "b0 < 240"
    | (e) "\<not> b0 < 128" "\<not> b0 < 194" "\<not> b0 < 224" "\<not> b0 < 240" "b0 < 245"
    | (f) "\<not> b0 < 128" "\<not> b0 < 194" "\<not> b0 < 224" "\<not> b0 < 240" "\<not> b0 < 245"
    by blast
  then show ?case
  proof cases
    case a
    with "2.prems" obtain xs where xs: "utf8_decode bs = Inr xs" "t = unat b0 # xs"
      by (auto dest: emit_Inr)
    have "unat b0 < 128" using a by (simp add: word_less_nat_alt)
    with "2.IH"(1)[OF a xs(1)] xs(2) show ?thesis by simp
  next
    case b
    with "2.prems" show ?thesis by simp
  next
    case c
    with "2.prems" obtain b1 r xs where
      *: "bs = b1 # r" "is_continuation b1" "utf8_decode r = Inr xs" "t = codepoint2 b0 b1 # xs"
      by (auto split: list.splits if_splits dest: emit_Inr)
    from "2.IH"(2)[OF c *(1) *(2) *(3)] *(4) codepoint2_bound[of b0 b1] show ?thesis by simp
  next
    case d
    with "2.prems" obtain b1 b2 r xs where
      *: "bs = b1 # b2 # r"
         "is_continuation b1 \<and> is_continuation b2 \<and> 2048 \<le> codepoint3 b0 b1 b2
           \<and> \<not> is_surrogate (codepoint3 b0 b1 b2)"
         "utf8_decode r = Inr xs" "t = codepoint3 b0 b1 b2 # xs"
      by (auto split: list.splits if_splits dest: emit_Inr)
    from "2.IH"(3)[OF d _ _ *(2) *(3)] * codepoint3_bound[of b0 b1 b2] show ?thesis by simp
  next
    case e
    with "2.prems" obtain b1 b2 b3 r xs where
      *: "bs = b1 # b2 # b3 # r"
         "is_continuation b1 \<and> is_continuation b2 \<and> is_continuation b3
           \<and> 65536 \<le> codepoint4 b0 b1 b2 b3 \<and> codepoint4 b0 b1 b2 b3 \<le> 1114111"
         "utf8_decode r = Inr xs" "t = codepoint4 b0 b1 b2 b3 # xs"
      by (auto split: list.splits if_splits dest: emit_Inr)
    from "2.IH"(4)[OF e _ _ _ *(2) *(3)] * show ?thesis by simp
  next
    case f
    with "2.prems" show ?thesis by simp
  qed
qed

lemma csv_text_bound:
  assumes "list_all (\<lambda>c. c \<le> 1114111) text"
  shows "list_all (\<lambda>c. c \<le> 1114111) (to_csv (valid_rows text))"
proof -
  have "c \<le> 1114111" if "c \<in> set (to_csv (valid_rows text))" for c
  proof -
    from that to_csv_subset[of "valid_rows text"]
    have "c \<in> {COMMA, QUOTE, NEWLINE}
        \<or> (\<exists>cols f. cols \<in> set (valid_rows text) \<and> f \<in> set cols \<and> c \<in> set f)"
      by auto
    then show ?thesis
    proof
      assume "c \<in> {COMMA, QUOTE, NEWLINE}"
      then show ?thesis by (auto simp: COMMA_def QUOTE_def NEWLINE_def)
    next
      assume "\<exists>cols f. cols \<in> set (valid_rows text) \<and> f \<in> set cols \<and> c \<in> set f"
      then have "c \<in> set text" using valid_rows_subset by blast
      with assms show ?thesis by (simp add: list_all_iff)
    qed
  qed
  then show ?thesis by (simp add: list_all_iff)
qed

lemma csv_bytes_decode:
  assumes "utf8_decode raw = Inr text"
    and "utf8_encode (to_csv (valid_rows text)) = Inr csv_data"
  shows "utf8_decode csv_data = Inr (to_csv (valid_rows text))"
proof -
  have "list_all (\<lambda>c. c \<le> 1114111) (to_csv (valid_rows text))"
    using csv_text_bound[OF utf8_decode_bound[OF assms(1)]] .
  moreover have "list_all (\<lambda>c. \<not> is_surrogate c) (to_csv (valid_rows text))"
    using csv_text_no_surrogate[OF utf8_decode_no_surrogate[OF assms(1)]] .
  ultimately have "list_all (\<lambda>c. c \<le> 1114111 \<and> \<not> is_surrogate c) (to_csv (valid_rows text))"
    by (simp add: list_all_iff)
  from utf8_decode_encode[OF this assms(2)] show ?thesis .
qed

section \<open>The loop of the handler\<close>

lemma process_all_map:
  "process_all rcds acc = Inr outs \<Longrightarrow>
   map Inr outs = map Inr acc @ map process_record rcds"
proof (induction rcds arbitrary: acc)
  case Nil
  then show ?case by simp
next
  case (Cons rcd rcds)
  from Cons.prems obtain p where p: "process_record rcd = Inr p"
    and rest: "process_all rcds (acc @ [p]) = Inr outs"
    by (auto split: sum.splits)
  from Cons.IH[OF rest] p show ?case by simp
qed

lemma process_all_total:
  "list_all (\<lambda>rcd. rcd ''recordId'' \<noteq> None \<and> rcd ''data'' \<noteq> None) rcds \<Longrightarrow>
   \<exists>outs. process_all rcds acc = Inr outs"
proof (induction rcds arbitrary: acc)
  case Nil
  then show ?case by simp
next
  case (Cons rcd rcds)
  then obtain rid d where "rcd ''recordId'' = Some rid" "rcd ''data'' = Some d" by auto
  then obtain p where p: "process_record rcd = Inr p"
    by (cases "process_record_try rcd") (auto simp: process_record_with_fields)
  from Cons have "\<exists>outs. process_all rcds (acc @ [p]) = Inr outs" by simp
  with p show ?case by simp
qed

lemma handler_valid:
  "v \<noteq> [] \<Longrightarrow> handler (Some v) ev =
     (case process_all (event_records ev) [] of
        Inl e \<Rightarrow> Inl e
      | Inr rs \<Rightarrow> Inr \<lparr>records = rs\<rparr>)"
  by (simp add: handler_def validate_environment_variables_def)

lemma handler_unset:
  "data_bucket = None \<or> data_bucket = Some [] \<Longrightarrow>
   handler data_bucket ev = Inl (ValueError ''Environment variable DATA_BUCKET_NAME is not set.'')"
  by (auto simp: handler_def validate_environment_variables_def)

lemma handler_Inr:
  "handler data_bucket ev = Inr resp \<Longrightarrow>
   process_all (event_records ev) [] = Inr (records resp)"
  by (auto simp: handler_def split: sum.splits)

lemma process_all_error:
  "process_all rcds acc = Inl e \<Longrightarrow> \<exists>k. e = KeyError k"
proof (induction rcds arbitrary: acc)
  case Nil
  then show ?case by simp
next
  case (Cons rcd rcds)
  show ?case
  proof (cases "process_record rcd")
    case (Inl x)
    with Cons.prems have "e = x" by simp
    with Inl show ?thesis
      by (auto simp: process_record_def process_record_except_def dict_item_def
          split: sum.splits option.splits)
  next
    case (Inr p)
    with Cons show ?thesis by simp
  qed
qed

text \<open>The definitions that evaluate the transform at a concrete record.\<close>

lemmas eval_defs =
  process_record_def process_record_try_def process_record_except_def
  dict_item_def dict_get_def b64decode_def bytes_from_decode_data_def BASE64_PAD_def
  table_a2b_base64_def table_b2a_base64_def emit_def NEWLINE_def DELIMITER_def
  CLICKSTREAM_LABELS_def str_strip_def isspace_def
  to_csv_def csv_line_def csv_field_def csv_special_def COMMA_def QUOTE_def
  is_surrogate_def utf8_char_def b64encode_def is_continuation_def

section \<open>The claims\<close>

text \<open>
  C7, as amended. The round trip of the transport-safe encoding holds in the order
  encode first, decode second: for every byte string \<open>bs\<close>, decoding the base64 encoding
  of \<open>bs\<close> gives \<open>bs\<close> back, whether the encoding is passed as bytes or as the ASCII string
  that the transform stores in the \<^verbatim>\<open>data\<close> field.
\<close>

theorem base64_decode_encode:
  "b64decode (PyBytes (b64encode bs)) = Inr bs
   \<and> b64decode (PyStr (map unat (b64encode bs))) = Inr bs"
  by (simp only: b64decode_bytes_b64encode b64decode_str_b64encode simp_thms)

text \<open>
  C7, as stated, fails: decoding first and encoding second is not the identity on arbitrary
  byte strings. The string \<^verbatim>\<open>YR==\<close> decodes to the byte \<^verbatim>\<open>a\<close>, whose encoding is \<^verbatim>\<open>YQ==\<close>;
  the one-character string \<^verbatim>\<open>a\<close> does not decode at all.
\<close>

theorem base64_encode_decode_counterexample:
  "b64decode (PyBytes [89, 82, 61, 61]) = Inr [97]
   \<and> b64encode [97] = [89, 81, 61, 61]
   \<and> b64encode [97] \<noteq> [89, 82, 61, 61]
   \<and> b64decode (PyBytes [97]) = Inl BinasciiError"
  by (simp add: b64decode_def bytes_from_decode_data_def b64encode_def BASE64_PAD_def
      table_a2b_base64_def table_b2a_base64_def emit_def)

text \<open>
  C4, as amended. For every input record that carries both a \<^verbatim>\<open>recordId\<close> and a \<^verbatim>\<open>data\<close>
  field, \<^verbatim>\<open>process_record\<close> returns an output record with the same \<^verbatim>\<open>recordId\<close> and raises
  nothing; the result field is \<^verbatim>\<open>ProcessingFailed\<close> exactly when the body of the
  \<^verbatim>\<open>try\<close> raised.
\<close>

theorem process_record_returns:
  assumes "rcd ''recordId'' = Some rid" and "rcd ''data'' = Some d"
  shows "\<exists>res dat. process_record rcd = Inr \<lparr>recordId = rid, result = res, data = dat\<rparr>
           \<and> (res = ProcessingFailed) = isl (process_record_try rcd)"
proof (cases "process_record_try rcd")
  case (Inl e)
  then show ?thesis by (simp add: process_record_with_fields[OF assms])
next
  case (Inr out)
  then have "result out = Ok" "recordId out = rid"
    using process_record_try_result process_record_try_recordId assms(1) by fastforce+
  then have "out = \<lparr>recordId = rid, result = Ok, data = data out\<rparr>" by simp
  with Inr show ?thesis
    by (metis (no_types, lifting) process_record_with_fields[OF assms] sum.case(2) sum.disc(2)
        result.distinct(1))
qed

text \<open>
  The theorem at a record whose payload is the integer 5: the decoder raises
  \<^verbatim>\<open>TypeError\<close>, and the record comes back as \<^verbatim>\<open>ProcessingFailed\<close>.
\<close>

theorem process_record_returns_witness:
  "[''recordId'' \<mapsto> PyStr [114, 49], ''data'' \<mapsto> PyInt 5] ''recordId'' = Some (PyStr [114, 49])
   \<and> [''recordId'' \<mapsto> PyStr [114, 49], ''data'' \<mapsto> PyInt 5] ''data'' = Some (PyInt 5)
   \<and> process_record [''recordId'' \<mapsto> PyStr [114, 49], ''data'' \<mapsto> PyInt 5]
       = Inr \<lparr>recordId = PyStr [114, 49], result = ProcessingFailed, data = PyInt 5\<rparr>
   \<and> isl (process_record_try [''recordId'' \<mapsto> PyStr [114, 49], ''data'' \<mapsto> PyInt 5])"
proof -
  let ?rcd = "[''recordId'' \<mapsto> PyStr [114, 49], ''data'' \<mapsto> PyInt 5]"
  have h1: "?rcd ''recordId'' = Some (PyStr [114, 49])" by simp
  have h2: "?rcd ''data'' = Some (PyInt 5)" by simp
  have t: "process_record_try ?rcd = Inl TypeError"
    by (simp add: process_record_try_def dict_get_def b64decode_def bytes_from_decode_data_def)
  have c: "process_record ?rcd
      = Inr \<lparr>recordId = PyStr [114, 49], result = ProcessingFailed, data = PyInt 5\<rparr>"
    unfolding process_record_with_fields[OF h1 h2] t by simp
  have i: "isl (process_record_try ?rcd)" unfolding t by simp
  from process_record_returns[OF h1 h2] h1 h2 c i show ?thesis by blast
qed

text \<open>
  C4, as stated for every input record, fails on a record without one of the two fields:
  the \<^verbatim>\<open>except\<close> block reads \<^verbatim>\<open>record['recordId']\<close> and \<^verbatim>\<open>record['data']\<close> itself, and the
  \<^verbatim>\<open>KeyError\<close> of a missing key leaves \<^verbatim>\<open>process_record\<close>.
\<close>

theorem process_record_raises_counterexample:
  "process_record [''data'' \<mapsto> PyStr [89, 81, 61, 61]] = Inl (KeyError ''recordId'')
   \<and> process_record [''recordId'' \<mapsto> PyStr [114, 49]] = Inl (KeyError ''data'')"
  by (simp add: process_record_def process_record_try_def process_record_except_def
      dict_item_def dict_get_def b64decode_def bytes_from_decode_data_def BASE64_PAD_def
      table_a2b_base64_def emit_def)

text \<open>
  C3, as amended. For every input record with a \<^verbatim>\<open>recordId\<close> and a \<^verbatim>\<open>data\<close> field on which
  the body of the \<^verbatim>\<open>try\<close> raises, in particular whenever the decoder of the library
  rejects the \<^verbatim>\<open>data\<close> field or the decoded bytes are not valid UTF-8, \<^verbatim>\<open>process_record\<close>
  returns \<^verbatim>\<open>ProcessingFailed\<close> with the \<^verbatim>\<open>data\<close> field of the input, unchanged; and an
  output marked \<^verbatim>\<open>ProcessingFailed\<close> never carries anything but that original field.
\<close>

theorem failure_returns_original_data:
  assumes "rcd ''recordId'' = Some rid" and "rcd ''data'' = Some d"
  shows "(isl (process_record_try rcd) \<longrightarrow>
            process_record rcd = Inr \<lparr>recordId = rid, result = ProcessingFailed, data = d\<rparr>)
       \<and> (isl (b64decode d) \<longrightarrow>
            process_record rcd = Inr \<lparr>recordId = rid, result = ProcessingFailed, data = d\<rparr>)
       \<and> (b64decode d = Inr raw \<and> isl (utf8_decode raw) \<longrightarrow>
            process_record rcd = Inr \<lparr>recordId = rid, result = ProcessingFailed, data = d\<rparr>)
       \<and> (process_record rcd = Inr out \<and> result out = ProcessingFailed \<longrightarrow>
            data out = d \<and> isl (process_record_try rcd))"
proof -
  have g: "dict_get rcd ''data'' = d" using assms(2) by (simp add: dict_get_def)
  have a: "isl (process_record_try rcd) \<Longrightarrow>
      process_record rcd = Inr \<lparr>recordId = rid, result = ProcessingFailed, data = d\<rparr>"
    by (cases "process_record_try rcd") (simp_all add: process_record_with_fields[OF assms])
  have b: "isl (b64decode d) \<Longrightarrow> isl (process_record_try rcd)"
    by (cases "b64decode d") (simp_all add: process_record_try_failed(1) g)
  have c: "b64decode d = Inr raw \<Longrightarrow> isl (utf8_decode raw) \<Longrightarrow> isl (process_record_try rcd)"
    by (cases "utf8_decode raw") (simp_all add: process_record_try_failed(2) g)
  have e: "process_record rcd = Inr out \<Longrightarrow> result out = ProcessingFailed \<Longrightarrow>
      data out = d \<and> isl (process_record_try rcd)"
  proof (cases "process_record_try rcd")
    case (Inl x)
    assume "process_record rcd = Inr out"
    with Inl show ?thesis by (auto simp: process_record_with_fields[OF assms])
  next
    case (Inr o2)
    assume "process_record rcd = Inr out" "result out = ProcessingFailed"
    with Inr process_record_try_result[OF Inr] show ?thesis
      by (auto simp: process_record_with_fields[OF assms])
  qed
  from a b c e show ?thesis by blast
qed

text \<open>
  The theorem at two records: \<^verbatim>\<open>abc\<close>, which the decoder rejects (three characters do
  not complete a quad), and \<^verbatim>\<open>/w==\<close>, which decodes to the byte 255, not UTF-8.
\<close>

theorem failure_returns_original_data_witness:
  "[''recordId'' \<mapsto> PyStr [114, 49], ''data'' \<mapsto> PyStr [97, 98, 99]] ''recordId'' = Some (PyStr [114, 49])
   \<and> [''recordId'' \<mapsto> PyStr [114, 49], ''data'' \<mapsto> PyStr [97, 98, 99]] ''data'' = Some (PyStr [97, 98, 99])
   \<and> isl (b64decode (PyStr [97, 98, 99]))
   \<and> b64decode (PyStr [47, 119, 61, 61]) = Inr [255]
   \<and> isl (utf8_decode [255])
   \<and> process_record [''recordId'' \<mapsto> PyStr [114, 49], ''data'' \<mapsto> PyStr [97, 98, 99]]
       = Inr \<lparr>recordId = PyStr [114, 49], result = ProcessingFailed, data = PyStr [97, 98, 99]\<rparr>
   \<and> process_record [''recordId'' \<mapsto> PyStr [114, 49], ''data'' \<mapsto> PyStr [47, 119, 61, 61]]
       = Inr \<lparr>recordId = PyStr [114, 49], result = ProcessingFailed, data = PyStr [47, 119, 61, 61]\<rparr>"
proof -
  let ?r1 = "[''recordId'' \<mapsto> PyStr [114, 49], ''data'' \<mapsto> PyStr [97, 98, 99]]"
  let ?r2 = "[''recordId'' \<mapsto> PyStr [114, 49], ''data'' \<mapsto> PyStr [47, 119, 61, 61]]"
  have h1: "?r1 ''recordId'' = Some (PyStr [114, 49])" by simp
  have h2: "?r1 ''data'' = Some (PyStr [97, 98, 99])" by simp
  have k1: "?r2 ''recordId'' = Some (PyStr [114, 49])" by simp
  have k2: "?r2 ''data'' = Some (PyStr [47, 119, 61, 61])" by simp
  have b1: "isl (b64decode (PyStr [97, 98, 99]))"
    by (simp add: b64decode_def bytes_from_decode_data_def BASE64_PAD_def
        table_a2b_base64_def emit_def)
  have b2: "b64decode (PyStr [47, 119, 61, 61]) = Inr [255]"
    by (simp add: b64decode_def bytes_from_decode_data_def BASE64_PAD_def
        table_a2b_base64_def emit_def)
  have u2: "isl (utf8_decode [255])" by simp
  from failure_returns_original_data[OF h1 h2, of undefined undefined] b1
  have c1: "process_record ?r1
      = Inr \<lparr>recordId = PyStr [114, 49], result = ProcessingFailed, data = PyStr [97, 98, 99]\<rparr>"
    by blast
  from failure_returns_original_data[OF k1 k2, of "[255]" undefined] b2 u2
  have c2: "process_record ?r2
      = Inr \<lparr>recordId = PyStr [114, 49], result = ProcessingFailed, data = PyStr [47, 119, 61, 61]\<rparr>"
    by blast
  from h1 h2 b1 b2 u2 c1 c2 show ?thesis by blast
qed

text \<open>
  C3, as stated, fails where it takes every string that is not valid base64 to raise: the
  decoder skips the characters outside the alphabet. The payload \<^verbatim>\<open>@\<close> is no base64 (the
  character is neither in the alphabet nor the pad), yet it decodes to the empty byte
  string, and the record comes back \<^verbatim>\<open>Ok\<close> with empty data, not with its original data.
\<close>

theorem lenient_decoding_counterexample:
  "table_a2b_base64 64 = None
   \<and> (64 :: byte) \<noteq> BASE64_PAD
   \<and> process_record [''recordId'' \<mapsto> PyStr [114, 49], ''data'' \<mapsto> PyStr [64]]
       = Inr \<lparr>recordId = PyStr [114, 49], result = Ok, data = PyStr []\<rparr>"
  by (simp add: process_record_def process_record_try_def process_record_except_def
      dict_item_def dict_get_def b64decode_def bytes_from_decode_data_def BASE64_PAD_def
      table_a2b_base64_def emit_def NEWLINE_def str_strip_def to_csv_def b64encode_def)

text \<open>
  C10. For every input record that has a \<^verbatim>\<open>recordId\<close> field and whose \<^verbatim>\<open>data\<close> field
  decodes from base64 to valid UTF-8 text, the body of the \<^verbatim>\<open>try\<close> returns, so the
  \<^verbatim>\<open>except\<close> block is not entered, and the result is \<^verbatim>\<open>Ok\<close>, whatever the text holds.
\<close>

theorem valid_payload_is_ok:
  assumes "rcd ''recordId'' = Some rid"
    and "b64decode (dict_get rcd ''data'') = Inr raw"
    and "utf8_decode raw = Inr text"
  shows "\<exists>enc. process_record_try rcd = Inr \<lparr>recordId = rid, result = Ok, data = PyStr enc\<rparr>
           \<and> process_record rcd = Inr \<lparr>recordId = rid, result = Ok, data = PyStr enc\<rparr>"
proof -
  from process_record_try_decoded[OF assms] obtain csv_data where
    "process_record_try rcd =
       Inr \<lparr>recordId = rid, result = Ok, data = PyStr (map unat (b64encode csv_data))\<rparr>"
    by blast
  then show ?thesis by (simp add: process_record_def)
qed

text \<open>
  The theorem at a payload of three lines that yield no row: a line of one field, a line
  of three tabs, and a line with a comma, a quote and one tab.
\<close>

theorem valid_payload_is_ok_witness:
  "[''recordId'' \<mapsto> PyStr [114, 49], ''data'' \<mapsto> PyStr [89, 109, 70, 107, 67, 103, 107, 74, 67, 81, 111, 115, 73, 103, 107, 75]] ''recordId''
       = Some (PyStr [114, 49])
   \<and> b64decode (dict_get [''recordId'' \<mapsto> PyStr [114, 49], ''data'' \<mapsto> PyStr [89, 109, 70, 107, 67, 103, 107, 74, 67, 81, 111, 115, 73, 103, 107, 75]] ''data'')
       = Inr [98, 97, 100, 10, 9, 9, 9, 10, 44, 34, 9, 10]
   \<and> utf8_decode [98, 97, 100, 10, 9, 9, 9, 10, 44, 34, 9, 10] = Inr [98, 97, 100, 10, 9, 9, 9, 10, 44, 34, 9, 10]
   \<and> (\<exists>enc. process_record [''recordId'' \<mapsto> PyStr [114, 49], ''data'' \<mapsto> PyStr [89, 109, 70, 107, 67, 103, 107, 74, 67, 81, 111, 115, 73, 103, 107, 75]]
         = Inr \<lparr>recordId = PyStr [114, 49], result = Ok, data = PyStr enc\<rparr>)"
proof -
  let ?rcd = "[''recordId'' \<mapsto> PyStr [114, 49], ''data'' \<mapsto> PyStr [89, 109, 70, 107, 67, 103, 107, 74, 67, 81, 111, 115, 73, 103, 107, 75]]"
  have h1: "?rcd ''recordId'' = Some (PyStr [114, 49])" by simp
  have h2: "b64decode (dict_get ?rcd ''data'') = Inr [98, 97, 100, 10, 9, 9, 9, 10, 44, 34, 9, 10]"
    by (simp add: dict_get_def b64decode_def bytes_from_decode_data_def BASE64_PAD_def
        table_a2b_base64_def emit_def)
  have h3: "utf8_decode [98, 97, 100, 10, 9, 9, 9, 10, 44, 34, 9, 10] = Inr [98, 97, 100, 10, 9, 9, 9, 10, 44, 34, 9, 10]"
    by (simp add: emit_def)
  from valid_payload_is_ok[OF h1 h2 h3] h1 h2 h3 show ?thesis by blast
qed

text \<open>
  C5. A line that the tab does not cut into exactly four fields is dropped: wherever it
  stands among the lines, the rows collected and the CSV body written from them are those
  of the payload without that line. A record whose payload has only such lines comes back
  \<^verbatim>\<open>Ok\<close> with the empty string as data, which decodes to zero bytes.
\<close>

theorem malformed_lines_dropped:
  "(length (str_split DELIMITER line) \<noteq> 4 \<longrightarrow>
      parse_lines (xs @ line # ys) rows = parse_lines (xs @ ys) rows
      \<and> to_csv (parse_lines (xs @ line # ys) []) = to_csv (parse_lines (xs @ ys) []))
   \<and> (rcd ''recordId'' = Some rid
        \<and> b64decode (dict_get rcd ''data'') = Inr raw
        \<and> utf8_decode raw = Inr text
        \<and> list_all (\<lambda>l. length (str_split DELIMITER l) \<noteq> 4) (str_split NEWLINE text)
      \<longrightarrow> process_record rcd = Inr \<lparr>recordId = rid, result = Ok, data = PyStr []\<rparr>
          \<and> b64decode (PyStr []) = Inr [])"
proof -
  have a: "parse_lines (xs @ line # ys) rows = parse_lines (xs @ ys) rows"
    if "length (str_split DELIMITER line) \<noteq> 4" for rows
    using that by (simp add: parse_lines_drop valid_line_def)
  have b: "process_record rcd = Inr \<lparr>recordId = rid, result = Ok, data = PyStr []\<rparr>"
    if h: "rcd ''recordId'' = Some rid" "b64decode (dict_get rcd ''data'') = Inr raw"
      "utf8_decode raw = Inr text"
      "list_all (\<lambda>l. length (str_split DELIMITER l) \<noteq> 4) (str_split NEWLINE text)"
  proof -
    have "filter valid_line (str_split NEWLINE text) = []"
      using h(4) by (auto simp: filter_empty_conv list_all_iff valid_line_def)
    then have e: "valid_rows text = []" by (simp add: valid_rows_def)
    from process_record_try_decoded[OF h(1) h(2) h(3)]
    have "process_record_try rcd = Inr \<lparr>recordId = rid, result = Ok, data = PyStr []\<rparr>"
      by (auto simp: e to_csv_simps b64encode_def)
    then show ?thesis by (simp add: process_record_def)
  qed
  from a b b64decode_empty show ?thesis by simp
qed

text \<open>
  The theorem at the line \<^verbatim>\<open>bad\<close> between two valid lines, and at the record whose payload
  is \<^verbatim>\<open>bad\<close>, a line of two fields, and the empty rest after the last newline.
\<close>

theorem malformed_lines_dropped_witness:
  "length (str_split DELIMITER [98, 97, 100]) \<noteq> 4
   \<and> parse_lines ([[97, 9, 98, 9, 99, 9, 49]] @ [98, 97, 100] # [[120, 9, 121, 9, 122, 9, 50]]) []
       = [[[97], [98], [99], [49]], [[120], [121], [122], [50]]]
   \<and> [''recordId'' \<mapsto> PyStr [114, 49], ''data'' \<mapsto> PyStr [89, 109, 70, 107, 67, 110, 103, 74, 101, 81, 111, 61]] ''recordId'' = Some (PyStr [114, 49])
   \<and> b64decode (dict_get [''recordId'' \<mapsto> PyStr [114, 49], ''data'' \<mapsto> PyStr [89, 109, 70, 107, 67, 110, 103, 74, 101, 81, 111, 61]] ''data'') = Inr [98, 97, 100, 10, 120, 9, 121, 10]
   \<and> utf8_decode [98, 97, 100, 10, 120, 9, 121, 10] = Inr [98, 97, 100, 10, 120, 9, 121, 10]
   \<and> list_all (\<lambda>l. length (str_split DELIMITER l) \<noteq> 4) (str_split NEWLINE [98, 97, 100, 10, 120, 9, 121, 10])
   \<and> process_record [''recordId'' \<mapsto> PyStr [114, 49], ''data'' \<mapsto> PyStr [89, 109, 70, 107, 67, 110, 103, 74, 101, 81, 111, 61]]
       = Inr \<lparr>recordId = PyStr [114, 49], result = Ok, data = PyStr []\<rparr>"
proof -
  let ?rcd = "[''recordId'' \<mapsto> PyStr [114, 49], ''data'' \<mapsto> PyStr [89, 109, 70, 107, 67, 110, 103, 74, 101, 81, 111, 61]]"
  have l: "length (str_split DELIMITER [98, 97, 100]) \<noteq> 4" by (simp add: DELIMITER_def)
  have p: "parse_lines ([[97, 9, 98, 9, 99, 9, 49]] @ [[120, 9, 121, 9, 122, 9, 50]]) []
       = [[[97], [98], [99], [49]], [[120], [121], [122], [50]]]"
    by (simp add: DELIMITER_def str_strip_def isspace_def CLICKSTREAM_LABELS_def)
  have h1: "?rcd ''recordId'' = Some (PyStr [114, 49])" by simp
  have h2: "b64decode (dict_get ?rcd ''data'') = Inr [98, 97, 100, 10, 120, 9, 121, 10]"
    by (simp add: dict_get_def b64decode_def bytes_from_decode_data_def BASE64_PAD_def
        table_a2b_base64_def emit_def)
  have h3: "utf8_decode [98, 97, 100, 10, 120, 9, 121, 10] = Inr [98, 97, 100, 10, 120, 9, 121, 10]" by (simp add: emit_def)
  have h4: "list_all (\<lambda>l. length (str_split DELIMITER l) \<noteq> 4) (str_split NEWLINE [98, 97, 100, 10, 120, 9, 121, 10])"
    by (simp add: DELIMITER_def NEWLINE_def)
  from malformed_lines_dropped[of "[98, 97, 100]" "[[97, 9, 98, 9, 99, 9, 49]]"
      "[[120, 9, 121, 9, 122, 9, 50]]" "[]" ?rcd "PyStr [114, 49]" "[98, 97, 100, 10, 120, 9, 121, 10]" "[98, 97, 100, 10, 120, 9, 121, 10]"]
    l p h1 h2 h3 h4
  show ?thesis by simp
qed

text \<open>
  C8. A line that is empty or has whitespace only is skipped, wherever it stands, before
  its fields are counted: the line of three tabs would give four empty fields, and yields
  no row, while the line \<^verbatim>\<open>a\<close> followed by three tabs yields the row of \<^verbatim>\<open>a\<close> and three
  empty fields.
\<close>

theorem blank_lines_skipped:
  "(list_all isspace line \<longrightarrow>
      parse_lines (xs @ line # ys) rows = parse_lines (xs @ ys) rows
      \<and> to_csv (parse_lines (xs @ line # ys) []) = to_csv (parse_lines (xs @ ys) []))
   \<and> list_all isspace [9, 9, 9]
   \<and> str_split DELIMITER [9, 9, 9] = [[], [], [], []]
   \<and> parse_lines [[9, 9, 9]] [] = []
   \<and> parse_lines [[97, 9, 9, 9]] [] = [[[97], [], [], []]]"
proof -
  have a: "parse_lines (xs @ line # ys) rows = parse_lines (xs @ ys) rows"
    if "list_all isspace line" for rows
    using that by (simp add: parse_lines_drop valid_line_def)
  have b: "list_all isspace [9, 9, 9]" by (simp add: isspace_def)
  have c: "str_split DELIMITER [9, 9, 9] = [[], [], [], []]" by (simp add: DELIMITER_def)
  have d: "parse_lines [[9, 9, 9]] [] = []"
    using b by (simp add: str_strip_Nil)
  have e: "parse_lines [[97, 9, 9, 9]] [] = [[[97], [], [], []]]"
    by (simp add: str_strip_Nil isspace_def DELIMITER_def CLICKSTREAM_LABELS_def)
  from a b c d e show ?thesis by simp
qed

text \<open>
  The theorem at a line of a space, three tabs and a no-break space: four fields, all
  whitespace, no row.
\<close>

theorem blank_lines_skipped_witness:
  "list_all isspace [32, 9, 9, 9, 160]
   \<and> length (str_split DELIMITER [32, 9, 9, 9, 160]) = 4
   \<and> parse_lines ([[97, 9, 98, 9, 99, 9, 49]] @ [32, 9, 9, 9, 160] # [[]]) []
       = [[[97], [98], [99], [49]]]"
proof -
  have s: "list_all isspace [32, 9, 9, 9, 160]" by (simp add: isspace_def)
  have n: "length (str_split DELIMITER [32, 9, 9, 9, 160]) = 4" by (simp add: DELIMITER_def)
  have p: "parse_lines ([[97, 9, 98, 9, 99, 9, 49]] @ [[]]) [] = [[[97], [98], [99], [49]]]"
    by (simp add: DELIMITER_def str_strip_def isspace_def CLICKSTREAM_LABELS_def)
  from blank_lines_skipped[of "[32, 9, 9, 9, 160]" "[[97, 9, 98, 9, 99, 9, 49]]" "[[]]" "[]"]
    s n p
  show ?thesis by simp
qed

text \<open>
  C2, as amended. For every input record whose \<^verbatim>\<open>data\<close> field decodes from base64 to UTF-8
  text, \<^verbatim>\<open>process_record\<close> returns \<^verbatim>\<open>Ok\<close> and a \<^verbatim>\<open>data\<close> field that base64-decodes to
  bytes which are, and decode as UTF-8 to, the CSV body. The body has exactly one line per
  valid line of the payload, in the same order: splitting it at the newlines gives the CSV
  lines of the rows and the empty rest after the last newline. A CSV line is the fields of the row joined by
  commas, where a field that contains a comma, a double quote or a newline stands
  between double quotes with its double quotes doubled. When no field of the payload
  contains such a character, the body is the plain comma-joined text, and splitting each
  line at the commas gives the fields back.
\<close>

theorem valid_lines_become_csv_lines:
  assumes "rcd ''recordId'' = Some rid"
    and "b64decode (dict_get rcd ''data'') = Inr raw"
    and "utf8_decode raw = Inr text"
  shows "\<exists>enc csv_data.
           process_record rcd = Inr \<lparr>recordId = rid, result = Ok, data = PyStr enc\<rparr>
         \<and> utf8_encode (to_csv (valid_rows text)) = Inr csv_data
         \<and> b64decode (PyStr enc) = Inr csv_data
         \<and> utf8_decode csv_data = Inr (to_csv (valid_rows text))
         \<and> str_split NEWLINE (to_csv (valid_rows text)) = map csv_line (valid_rows text) @ [[]]
         \<and> (list_all (list_all (\<lambda>f. \<not> list_ex csv_special f)) (valid_rows text) \<longrightarrow>
              to_csv (valid_rows text) = comma_joined (valid_rows text)
              \<and> map (str_split COMMA \<circ> csv_line) (valid_rows text) = valid_rows text)"
proof -
  from process_record_try_decoded[OF assms] obtain csv_data where
    enc: "utf8_encode (to_csv (valid_rows text)) = Inr csv_data" and
    tr: "process_record_try rcd =
       Inr \<lparr>recordId = rid, result = Ok, data = PyStr (map unat (b64encode csv_data))\<rparr>"
    by blast
  from tr have pr: "process_record rcd =
       Inr \<lparr>recordId = rid, result = Ok, data = PyStr (map unat (b64encode csv_data))\<rparr>"
    by (simp add: process_record_def)
  have plain: "map (str_split COMMA \<circ> csv_line) (valid_rows text) = valid_rows text"
    if p: "list_all (list_all (\<lambda>f. \<not> list_ex csv_special f)) (valid_rows text)"
  proof (rule map_idI)
    fix cols assume c: "cols \<in> set (valid_rows text)"
    then have "cols \<noteq> []" using valid_rows_length[OF c] by auto
    moreover have "list_all (\<lambda>f. \<not> list_ex csv_special f) cols"
      using p c by (simp add: list_all_iff)
    ultimately show "(str_split COMMA \<circ> csv_line) cols = cols"
      by (simp add: csv_line_split_plain)
  qed
  from pr enc b64decode_str_b64encode[of csv_data] csv_bytes_decode[OF assms(3) enc]
    to_csv_lines[of "text"] to_csv_plain plain
  show ?thesis by blast
qed

text \<open>
  The theorem at the scenario of the specification: the payload of the two lines
  \<^verbatim>\<open>a b c 1\<close> and \<^verbatim>\<open>x y z 2\<close> (tab-delimited) gives the body \<^verbatim>\<open>a,b,c,1\<close>, \<^verbatim>\<open>x,y,z,2\<close>.
\<close>

theorem valid_lines_become_csv_lines_witness:
  "[''recordId'' \<mapsto> PyStr [114, 49], ''data'' \<mapsto> PyStr [89, 81, 108, 105, 67, 87, 77, 74, 77, 81, 112, 52, 67, 88, 107, 74, 101, 103, 107, 121, 67, 103, 61, 61]] ''recordId'' = Some (PyStr [114, 49])
   \<and> b64decode (dict_get [''recordId'' \<mapsto> PyStr [114, 49], ''data'' \<mapsto> PyStr [89, 81, 108, 105, 67, 87, 77, 74, 77, 81, 112, 52, 67, 88, 107, 74, 101, 103, 107, 121, 67, 103, 61, 61]] ''data'') = Inr [97, 9, 98, 9, 99, 9, 49, 10, 120, 9, 121, 9, 122, 9, 50, 10]
   \<and> utf8_decode [97, 9, 98, 9, 99, 9, 49, 10, 120, 9, 121, 9, 122, 9, 50, 10] = Inr [97, 9, 98, 9, 99, 9, 49, 10, 120, 9, 121, 9, 122, 9, 50, 10]
   \<and> valid_rows [97, 9, 98, 9, 99, 9, 49, 10, 120, 9, 121, 9, 122, 9, 50, 10] = [[[97], [98], [99], [49]], [[120], [121], [122], [50]]]
   \<and> to_csv [[[97], [98], [99], [49]], [[120], [121], [122], [50]]] = [97, 44, 98, 44, 99, 44, 49, 10, 120, 44, 121, 44, 122, 44, 50, 10]
   \<and> process_record [''recordId'' \<mapsto> PyStr [114, 49], ''data'' \<mapsto> PyStr [89, 81, 108, 105, 67, 87, 77, 74, 77, 81, 112, 52, 67, 88, 107, 74, 101, 103, 107, 121, 67, 103, 61, 61]]
       = Inr \<lparr>recordId = PyStr [114, 49], result = Ok, data = PyStr [89, 83, 120, 105, 76, 71, 77, 115, 77, 81, 112, 52, 76, 72, 107, 115, 101, 105, 119, 121, 67, 103, 61, 61]\<rparr>
   \<and> b64decode (PyStr [89, 83, 120, 105, 76, 71, 77, 115, 77, 81, 112, 52, 76, 72, 107, 115, 101, 105, 119, 121, 67, 103, 61, 61]) = Inr [97, 44, 98, 44, 99, 44, 49, 10, 120, 44, 121, 44, 122, 44, 50, 10]"
proof -
  let ?rcd = "[''recordId'' \<mapsto> PyStr [114, 49], ''data'' \<mapsto> PyStr [89, 81, 108, 105, 67, 87, 77, 74, 77, 81, 112, 52, 67, 88, 107, 74, 101, 103, 107, 121, 67, 103, 61, 61]]"
  have h1: "?rcd ''recordId'' = Some (PyStr [114, 49])" by simp
  have h2: "b64decode (dict_get ?rcd ''data'') = Inr [97, 9, 98, 9, 99, 9, 49, 10, 120, 9, 121, 9, 122, 9, 50, 10]"
    by (simp add: dict_get_def b64decode_def bytes_from_decode_data_def BASE64_PAD_def
        table_a2b_base64_def emit_def)
  have h3: "utf8_decode [97, 9, 98, 9, 99, 9, 49, 10, 120, 9, 121, 9, 122, 9, 50, 10] = Inr [97, 9, 98, 9, 99, 9, 49, 10, 120, 9, 121, 9, 122, 9, 50, 10]" by (simp add: emit_def)
  have r: "valid_rows [97, 9, 98, 9, 99, 9, 49, 10, 120, 9, 121, 9, 122, 9, 50, 10] = [[[97], [98], [99], [49]], [[120], [121], [122], [50]]]"
    by (simp add: valid_rows_def valid_line_def NEWLINE_def DELIMITER_def isspace_def)
  have c: "to_csv [[[97], [98], [99], [49]], [[120], [121], [122], [50]]] = [97, 44, 98, 44, 99, 44, 49, 10, 120, 44, 121, 44, 122, 44, 50, 10]"
    by (simp add: to_csv_def csv_line_def csv_field_def csv_special_def COMMA_def QUOTE_def
        NEWLINE_def)
  have u: "utf8_encode [97, 44, 98, 44, 99, 44, 49, 10, 120, 44, 121, 44, 122, 44, 50, 10] = Inr [97, 44, 98, 44, 99, 44, 49, 10, 120, 44, 121, 44, 122, 44, 50, 10]"
    by (simp add: is_surrogate_def utf8_char_def)
  have e: "map unat (b64encode [97, 44, 98, 44, 99, 44, 49, 10, 120, 44, 121, 44, 122, 44, 50, 10]) = [89, 83, 120, 105, 76, 71, 77, 115, 77, 81, 112, 52, 76, 72, 107, 115, 101, 105, 119, 121, 67, 103, 61, 61]"
    by (simp add: b64encode_def table_b2a_base64_def BASE64_PAD_def)
  have d: "b64decode (PyStr [89, 83, 120, 105, 76, 71, 77, 115, 77, 81, 112, 52, 76, 72, 107, 115, 101, 105, 119, 121, 67, 103, 61, 61]) = Inr [97, 44, 98, 44, 99, 44, 49, 10, 120, 44, 121, 44, 122, 44, 50, 10]"
    by (simp add: b64decode_def bytes_from_decode_data_def BASE64_PAD_def
        table_a2b_base64_def emit_def)
  from process_record_try_decoded[OF h1 h2 h3] obtain cd2 where
    t: "utf8_encode (to_csv (valid_rows [97, 9, 98, 9, 99, 9, 49, 10, 120, 9, 121, 9, 122, 9, 50, 10])) = Inr cd2"
       "process_record_try ?rcd =
          Inr \<lparr>recordId = PyStr [114, 49], result = Ok, data = PyStr (map unat (b64encode cd2))\<rparr>"
    by blast
  from t(1) r c u have "cd2 = [97, 44, 98, 44, 99, 44, 49, 10, 120, 44, 121, 44, 122, 44, 50, 10]" by simp
  with t(2) e have "process_record_try ?rcd =
      Inr \<lparr>recordId = PyStr [114, 49], result = Ok, data = PyStr [89, 83, 120, 105, 76, 71, 77, 115, 77, 81, 112, 52, 76, 72, 107, 115, 101, 105, 119, 121, 67, 103, 61, 61]\<rparr>"
    by simp
  then have p: "process_record ?rcd = Inr \<lparr>recordId = PyStr [114, 49], result = Ok, data = PyStr [89, 83, 120, 105, 76, 71, 77, 115, 77, 81, 112, 52, 76, 72, 107, 115, 101, 105, 119, 121, 67, 103, 61, 61]\<rparr>"
    unfolding process_record_def by simp
  from valid_lines_become_csv_lines[OF h1 h2 h3] h1 h2 h3 r c p d show ?thesis by blast
qed

text \<open>
  C2, as stated, fails where it takes the output lines to be the fields joined by commas
  whatever the fields hold: a field with a comma is written between double quotes. The
  payload of the one line with the fields \<^verbatim>\<open>a,b\<close>, \<^verbatim>\<open>c\<close>, \<^verbatim>\<open>d\<close>, \<^verbatim>\<open>e\<close> gives the body
  \<^verbatim>\<open>"a,b",c,d,e\<close>, which is not the comma-joined line \<^verbatim>\<open>a,b,c,d,e\<close>.
\<close>

theorem quoted_field_counterexample:
  "b64decode (PyStr [89, 83, 120, 105, 67, 87, 77, 74, 90, 65, 108, 108, 67, 103, 61, 61]) = Inr [97, 44, 98, 9, 99, 9, 100, 9, 101, 10]
   \<and> utf8_decode [97, 44, 98, 9, 99, 9, 100, 9, 101, 10] = Inr [97, 44, 98, 9, 99, 9, 100, 9, 101, 10]
   \<and> valid_rows [97, 44, 98, 9, 99, 9, 100, 9, 101, 10] = [[[97, 44, 98], [99], [100], [101]]]
   \<and> process_record [''recordId'' \<mapsto> PyStr [114, 49], ''data'' \<mapsto> PyStr [89, 83, 120, 105, 67, 87, 77, 74, 90, 65, 108, 108, 67, 103, 61, 61]]
       = Inr \<lparr>recordId = PyStr [114, 49], result = Ok, data = PyStr [73, 109, 69, 115, 89, 105, 73, 115, 89, 121, 120, 107, 76, 71, 85, 75]\<rparr>
   \<and> b64decode (PyStr [73, 109, 69, 115, 89, 105, 73, 115, 89, 121, 120, 107, 76, 71, 85, 75]) = Inr [34, 97, 44, 98, 34, 44, 99, 44, 100, 44, 101, 10]
   \<and> utf8_decode [34, 97, 44, 98, 34, 44, 99, 44, 100, 44, 101, 10] = Inr [34, 97, 44, 98, 34, 44, 99, 44, 100, 44, 101, 10]
   \<and> comma_joined [[[97, 44, 98], [99], [100], [101]]] = [97, 44, 98, 44, 99, 44, 100, 44, 101, 10]
   \<and> [34, 97, 44, 98, 34, 44, 99, 44, 100, 44, 101, 10] \<noteq> ([97, 44, 98, 44, 99, 44, 100, 44, 101, 10] :: nat list)"
proof -
  let ?rcd = "[''recordId'' \<mapsto> PyStr [114, 49], ''data'' \<mapsto> PyStr [89, 83, 120, 105, 67, 87, 77, 74, 90, 65, 108, 108, 67, 103, 61, 61]]"
  have h1: "?rcd ''recordId'' = Some (PyStr [114, 49])" by simp
  have h2: "b64decode (PyStr [89, 83, 120, 105, 67, 87, 77, 74, 90, 65, 108, 108, 67, 103, 61, 61]) = Inr [97, 44, 98, 9, 99, 9, 100, 9, 101, 10]"
    by (simp add: b64decode_def bytes_from_decode_data_def BASE64_PAD_def
        table_a2b_base64_def emit_def)
  then have h2': "b64decode (dict_get ?rcd ''data'') = Inr [97, 44, 98, 9, 99, 9, 100, 9, 101, 10]"
    by (simp add: dict_get_def)
  have h3: "utf8_decode [97, 44, 98, 9, 99, 9, 100, 9, 101, 10] = Inr [97, 44, 98, 9, 99, 9, 100, 9, 101, 10]" by (simp add: emit_def)
  have r: "valid_rows [97, 44, 98, 9, 99, 9, 100, 9, 101, 10] = [[[97, 44, 98], [99], [100], [101]]]"
    by (simp add: valid_rows_def valid_line_def NEWLINE_def DELIMITER_def isspace_def)
  have c: "to_csv [[[97, 44, 98], [99], [100], [101]]] = [34, 97, 44, 98, 34, 44, 99, 44, 100, 44, 101, 10]"
    by (simp add: to_csv_def csv_line_def csv_field_def csv_special_def COMMA_def QUOTE_def
        NEWLINE_def)
  have u: "utf8_encode [34, 97, 44, 98, 34, 44, 99, 44, 100, 44, 101, 10] = Inr [34, 97, 44, 98, 34, 44, 99, 44, 100, 44, 101, 10]"
    by (simp add: is_surrogate_def utf8_char_def)
  have e: "map unat (b64encode [34, 97, 44, 98, 34, 44, 99, 44, 100, 44, 101, 10]) = [73, 109, 69, 115, 89, 105, 73, 115, 89, 121, 120, 107, 76, 71, 85, 75]"
    by (simp add: b64encode_def table_b2a_base64_def BASE64_PAD_def)
  from process_record_try_decoded[OF h1 h2' h3] obtain cd2 where
    t: "utf8_encode (to_csv (valid_rows [97, 44, 98, 9, 99, 9, 100, 9, 101, 10])) = Inr cd2"
       "process_record_try ?rcd =
          Inr \<lparr>recordId = PyStr [114, 49], result = Ok, data = PyStr (map unat (b64encode cd2))\<rparr>"
    by blast
  from t(1) r c u have "cd2 = [34, 97, 44, 98, 34, 44, 99, 44, 100, 44, 101, 10]" by simp
  with t(2) e have "process_record_try ?rcd =
      Inr \<lparr>recordId = PyStr [114, 49], result = Ok, data = PyStr [73, 109, 69, 115, 89, 105, 73, 115, 89, 121, 120, 107, 76, 71, 85, 75]\<rparr>"
    by simp
  then have p: "process_record ?rcd = Inr \<lparr>recordId = PyStr [114, 49], result = Ok, data = PyStr [73, 109, 69, 115, 89, 105, 73, 115, 89, 121, 120, 107, 76, 71, 85, 75]\<rparr>"
    unfolding process_record_def by simp
  have d: "b64decode (PyStr [73, 109, 69, 115, 89, 105, 73, 115, 89, 121, 120, 107, 76, 71, 85, 75]) = Inr [34, 97, 44, 98, 34, 44, 99, 44, 100, 44, 101, 10]"
    by (simp add: b64decode_def bytes_from_decode_data_def BASE64_PAD_def
        table_a2b_base64_def emit_def)
  have d2: "utf8_decode [34, 97, 44, 98, 34, 44, 99, 44, 100, 44, 101, 10] = Inr [34, 97, 44, 98, 34, 44, 99, 44, 100, 44, 101, 10]" by (simp add: emit_def)
  have j: "comma_joined [[[97, 44, 98], [99], [100], [101]]] = [97, 44, 98, 44, 99, 44, 100, 44, 101, 10]"
    by (simp add: comma_joined_def COMMA_def NEWLINE_def)
  have n: "[34, 97, 44, 98, 34, 44, 99, 44, 100, 44, 101, 10] \<noteq> ([97, 44, 98, 44, 99, 44, 100, 44, 101, 10] :: nat list)" by simp
  from h2 h3 r p d d2 j n show ?thesis by blast
qed

text \<open>
  C1. Whenever \<^verbatim>\<open>handler\<close> returns a response, the response has exactly one output record
  per input record, in the same order: the output at each position is what
  \<^verbatim>\<open>process_record\<close> returns for the input at that position, on the \<^verbatim>\<open>Ok\<close> path and on
  the \<^verbatim>\<open>ProcessingFailed\<close> path alike, and its \<^verbatim>\<open>recordId\<close> is the \<^verbatim>\<open>recordId\<close> of that
  input. The handler does return a response when the bucket name is set and every record
  of the event carries its two fields.
\<close>

theorem handler_preserves_records:
  "(handler data_bucket ev = Inr resp \<longrightarrow>
      length (records resp) = length (event_records ev)
      \<and> map (\<lambda>out. Some (recordId out)) (records resp)
          = map (\<lambda>rcd. rcd ''recordId'') (event_records ev)
      \<and> map Inr (records resp) = map process_record (event_records ev))
   \<and> (data_bucket = Some v \<and> v \<noteq> []
        \<and> list_all (\<lambda>rcd. rcd ''recordId'' \<noteq> None \<and> rcd ''data'' \<noteq> None) (event_records ev)
      \<longrightarrow> (\<exists>response. handler data_bucket ev = Inr response))"
proof -
  have a: "length (records resp) = length (event_records ev)
      \<and> map (\<lambda>out. Some (recordId out)) (records resp)
          = map (\<lambda>rcd. rcd ''recordId'') (event_records ev)
      \<and> map Inr (records resp) = map process_record (event_records ev)"
    if h: "handler data_bucket ev = Inr resp"
  proof -
    from process_all_map[OF handler_Inr[OF h]]
    have m: "map Inr (records resp) = map process_record (event_records ev)" by simp
    then have len: "length (records resp) = length (event_records ev)"
      by (metis length_map)
    have "Some (recordId (records resp ! i)) = (event_records ev ! i) ''recordId''"
      if i: "i < length (records resp)" for i
    proof -
      from m have "map Inr (records resp) ! i = map process_record (event_records ev) ! i"
        by simp
      with i len have "process_record (event_records ev ! i) = Inr (records resp ! i)" by simp
      from process_record_recordId[OF this] show ?thesis by simp
    qed
    then have "map (\<lambda>out. Some (recordId out)) (records resp)
          = map (\<lambda>rcd. rcd ''recordId'') (event_records ev)"
      using len by (intro nth_equalityI) simp_all
    with m len show ?thesis by simp
  qed
  have b: "\<exists>response. handler data_bucket ev = Inr response"
    if "data_bucket = Some v" "v \<noteq> []"
      "list_all (\<lambda>rcd. rcd ''recordId'' \<noteq> None \<and> rcd ''data'' \<noteq> None) (event_records ev)"
  proof -
    from process_all_total[OF that(3), of "[]"] obtain outs where
      "process_all (event_records ev) [] = Inr outs" by blast
    with that(1,2) show ?thesis by (simp add: handler_valid)
  qed
  from a b show ?thesis by blast
qed

text \<open>
  The theorem at an event of two records, the first with the payload \<^verbatim>\<open>a b c 1\<close>
  (tab-delimited), the second with the payload \<^verbatim>\<open>abc\<close> that the decoder rejects.
\<close>

theorem handler_preserves_records_witness:
  "handler (Some [98])
     [''records'' \<mapsto> [[''recordId'' \<mapsto> PyStr [114, 49], ''data'' \<mapsto> PyStr [89, 81, 108, 105, 67, 87, 77, 74, 77, 81, 61, 61]],
                      [''recordId'' \<mapsto> PyStr [114, 50], ''data'' \<mapsto> PyStr [97, 98, 99]]]]
     = Inr \<lparr>records =
         [\<lparr>recordId = PyStr [114, 49], result = Ok, data = PyStr [89, 83, 120, 105, 76, 71, 77, 115, 77, 81, 111, 61]\<rparr>,
          \<lparr>recordId = PyStr [114, 50], result = ProcessingFailed, data = PyStr [97, 98, 99]\<rparr>]\<rparr>
   \<and> list_all (\<lambda>rcd. rcd ''recordId'' \<noteq> None \<and> rcd ''data'' \<noteq> None)
        (event_records
          [''records'' \<mapsto> [[''recordId'' \<mapsto> PyStr [114, 49], ''data'' \<mapsto> PyStr [89, 81, 108, 105, 67, 87, 77, 74, 77, 81, 61, 61]],
                      [''recordId'' \<mapsto> PyStr [114, 50], ''data'' \<mapsto> PyStr [97, 98, 99]]]])
   \<and> map (\<lambda>rcd. rcd ''recordId'')
        (event_records
          [''records'' \<mapsto> [[''recordId'' \<mapsto> PyStr [114, 49], ''data'' \<mapsto> PyStr [89, 81, 108, 105, 67, 87, 77, 74, 77, 81, 61, 61]],
                      [''recordId'' \<mapsto> PyStr [114, 50], ''data'' \<mapsto> PyStr [97, 98, 99]]]])
       = [Some (PyStr [114, 49]), Some (PyStr [114, 50])]"
proof -
  let ?r1 = "[''recordId'' \<mapsto> PyStr [114, 49], ''data'' \<mapsto> PyStr [89, 81, 108, 105, 67, 87, 77, 74, 77, 81, 61, 61]]"
  let ?r2 = "[''recordId'' \<mapsto> PyStr [114, 50], ''data'' \<mapsto> PyStr [97, 98, 99]]"
  let ?ev = "[''records'' \<mapsto> [?r1, ?r2]]"
  let ?resp = "\<lparr>records =
         [\<lparr>recordId = PyStr [114, 49], result = Ok, data = PyStr [89, 83, 120, 105, 76, 71, 77, 115, 77, 81, 111, 61]\<rparr>,
          \<lparr>recordId = PyStr [114, 50], result = ProcessingFailed, data = PyStr [97, 98, 99]\<rparr>]\<rparr>"
  have p1: "process_record ?r1
      = Inr \<lparr>recordId = PyStr [114, 49], result = Ok, data = PyStr [89, 83, 120, 105, 76, 71, 77, 115, 77, 81, 111, 61]\<rparr>"
    by (simp add: eval_defs)
  have p2: "process_record ?r2
      = Inr \<lparr>recordId = PyStr [114, 50], result = ProcessingFailed, data = PyStr [97, 98, 99]\<rparr>"
    by (simp add: eval_defs)
  have e: "event_records ?ev = [?r1, ?r2]" by (simp add: event_records_def)
  have h: "handler (Some [98]) ?ev = Inr ?resp"
    unfolding handler_def validate_environment_variables_def e
    by (simp add: p1 p2 del: fun_upd_apply)
  have l: "list_all (\<lambda>rcd. rcd ''recordId'' \<noteq> None \<and> rcd ''data'' \<noteq> None) (event_records ?ev)"
    unfolding e by simp
  have m: "map (\<lambda>rcd. rcd ''recordId'') (event_records ?ev)
       = [Some (PyStr [114, 49]), Some (PyStr [114, 50])]"
    unfolding e by simp
  from handler_preserves_records[of "Some [98]" ?ev ?resp "[98]"] h l m
  show ?thesis by blast
qed

text \<open>
  C6. When the bucket name is absent or empty, \<^verbatim>\<open>handler\<close> raises the \<^verbatim>\<open>ValueError\<close> of
  \<^verbatim>\<open>validate_environment_variables\<close> whatever the event holds: no record has been looked
  at. When the bucket name is present and not empty, the validation returns, no
  \<^verbatim>\<open>ValueError\<close> leaves the handler, and the result is that of the loop over the records.
\<close>

theorem environment_is_checked_first:
  "(data_bucket = None \<or> data_bucket = Some [] \<longrightarrow>
      handler data_bucket ev
        = Inl (ValueError ''Environment variable DATA_BUCKET_NAME is not set.''))
   \<and> (data_bucket = Some v \<and> v \<noteq> [] \<longrightarrow>
        validate_environment_variables data_bucket = Inr ()
        \<and> handler data_bucket ev \<noteq> Inl (ValueError msg)
        \<and> handler data_bucket ev =
            (case process_all (event_records ev) [] of
               Inl e \<Rightarrow> Inl e
             | Inr rs \<Rightarrow> Inr \<lparr>records = rs\<rparr>))"
proof -
  have b: "handler data_bucket ev \<noteq> Inl (ValueError msg)"
    if "data_bucket = Some v" "v \<noteq> []"
  proof
    assume e: "handler data_bucket ev = Inl (ValueError msg)"
    with that have "process_all (event_records ev) [] = Inl (ValueError msg)"
      by (simp add: handler_valid split: sum.splits)
    from process_all_error[OF this] show False by simp
  qed
  have c: "validate_environment_variables data_bucket = Inr ()"
    if "data_bucket = Some v" "v \<noteq> []"
    using that by (simp add: validate_environment_variables_def)
  from handler_unset[of data_bucket ev] handler_valid[of v ev] b c show ?thesis by auto
qed

text \<open>
  The theorem at an event whose only record has no \<^verbatim>\<open>recordId\<close>. Without a bucket name
  the error is the one of the configuration; with a bucket name it is the \<^verbatim>\<open>KeyError\<close> of
  the record, which shows that the configuration is checked before the record is read.
\<close>

theorem environment_is_checked_first_witness:
  "handler None [''records'' \<mapsto> [[''data'' \<mapsto> PyStr [97, 98, 99]]]]
     = Inl (ValueError ''Environment variable DATA_BUCKET_NAME is not set.'')
   \<and> handler (Some []) [''records'' \<mapsto> [[''data'' \<mapsto> PyStr [97, 98, 99]]]]
     = Inl (ValueError ''Environment variable DATA_BUCKET_NAME is not set.'')
   \<and> handler (Some [98]) [''records'' \<mapsto> [[''data'' \<mapsto> PyStr [97, 98, 99]]]]
     = Inl (KeyError ''recordId'')
   \<and> handler (Some [98]) [''records'' \<mapsto> [[''recordId'' \<mapsto> PyStr [114, 49], ''data'' \<mapsto> PyStr [97, 98, 99]]]]
     = Inr \<lparr>records =
         [\<lparr>recordId = PyStr [114, 49], result = ProcessingFailed, data = PyStr [97, 98, 99]\<rparr>]\<rparr>"
proof -
  let ?bad = "[''records'' \<mapsto> [[''data'' \<mapsto> PyStr [97, 98, 99]]]]"
  let ?good = "[''records'' \<mapsto> [[''recordId'' \<mapsto> PyStr [114, 49], ''data'' \<mapsto> PyStr [97, 98, 99]]]]"
  have a: "handler None ?bad
     = Inl (ValueError ''Environment variable DATA_BUCKET_NAME is not set.'')"
    using environment_is_checked_first[of None ?bad "[]" "[]"] by simp
  have b: "handler (Some []) ?bad
     = Inl (ValueError ''Environment variable DATA_BUCKET_NAME is not set.'')"
    using environment_is_checked_first[of "Some []" ?bad "[]" "[]"] by simp
  have c: "handler (Some [98]) ?bad = Inl (KeyError ''recordId'')"
    using environment_is_checked_first[of "Some [98]" ?bad "[98]" "[]"]
    by (simp add: event_records_def eval_defs)
  have d: "handler (Some [98]) ?good = Inr \<lparr>records =
         [\<lparr>recordId = PyStr [114, 49], result = ProcessingFailed, data = PyStr [97, 98, 99]\<rparr>]\<rparr>"
    using environment_is_checked_first[of "Some [98]" ?good "[98]" "[]"]
    by (simp add: event_records_def eval_defs)
  from a b c d show ?thesis by blast
qed

text \<open>
  C9. Two runs of \<^verbatim>\<open>handler\<close> on the same event with two bucket names, both not empty,
  give the same result: the value of the variable is not observable in the output.
\<close>

theorem bucket_name_not_observed:
  "v1 \<noteq> [] \<Longrightarrow> v2 \<noteq> [] \<Longrightarrow> handler (Some v1) ev = handler (Some v2) ev"
  by (simp add: handler_valid)

text \<open>The theorem at the bucket names \<^verbatim>\<open>b\<close> and \<^verbatim>\<open>cd\<close>.\<close>

theorem bucket_name_not_observed_witness:
  "[98] \<noteq> ([] :: nat list) \<and> [99, 100] \<noteq> ([] :: nat list)
   \<and> handler (Some [98]) [''records'' \<mapsto> [[''recordId'' \<mapsto> PyStr [114, 49], ''data'' \<mapsto> PyStr [97, 98, 99]]]]
     = handler (Some [99, 100]) [''records'' \<mapsto> [[''recordId'' \<mapsto> PyStr [114, 49], ''data'' \<mapsto> PyStr [97, 98, 99]]]]"
proof -
  have a: "[98] \<noteq> ([] :: nat list)" and b: "[99, 100] \<noteq> ([] :: nat list)" by simp_all
  from bucket_name_not_observed[OF a b] a b show ?thesis by blast
qed

end
